theory Spec2Isabelle
  imports Main
begin

abbreviation dq :: char where
  "dq \<equiv> CHR 0x22"

abbreviation bsl :: char where
  "bsl \<equiv> CHR 0x5C"

section \<open>Errors, durations and the well-known store keys\<close>

text \<open>
  Go errors are values.  \<open>ErrKeyMissing\<close> is the distinguished value \<open>etcd.ErrKeyMissing\<close>
  that the election loop compares against; \<open>Err s\<close> is any other error with message \<open>s\<close>;
  \<open>Errorf f e\<close> is \<open>fmt.Errorf(f, e)\<close>, a new error built from a format and a cause.
\<close>

datatype error = ErrKeyMissing | Err string | Errorf string error

text \<open>\<open>time.Duration\<close> counts nanoseconds; no arithmetic is done on it here.\<close>

type_synonym Duration = int

definition Second :: Duration where
  "Second = 1000000000"

definition assetKey :: string where
  "assetKey = ''kmm-asset-key''"

definition assetLockKey :: string where
  "assetLockKey = ''kmm-asset-lock''"

definition defaultBackOff :: Duration where
  "defaultBackOff = 20 * Second"

definition defaultLockTTL :: Duration where
  "defaultLockTTL = 120 * Second"

section \<open>Key material and the shared-asset bundle\<close>

text \<open>
  Keys are opaque (their encoded bytes); of a certificate the code reads only \<open>IsCA\<close>.
\<close>

type_synonym PrivateKey = string
type_synonym PublicKey = string

record Certificate =
  IsCA :: bool
  Raw :: string

record SharedAssets =
  FrontProxyCa :: string
  FrontProxyCaKey :: string
  SaPub :: string
  SaKey :: string

section \<open>The observable history of a run\<close>

text \<open>
  Every call that leaves the process (the store, the file system, kubeadm, the node agent,
  the clock) is an event that carries its arguments and its result.  \<open>EvSpin\<close> is one
  iteration of the empty keep-alive loop \<open>for true {}\<close>.
\<close>

datatype event =
    EvUpdateCloudCfg "error option"
  | EvCopyKubeCa "error option"
  | EvWriteManifests "error option"
  | EvGet string "error + string"
  | EvGetOrCreateLock string Duration "error + bool"
  | EvPutTx string string "error option"
  | EvDelete string "error option"
  | EvSleep Duration
  | EvCreatePKI "error option"
  | EvCreateKubeConfig "error option"
  | EvCreateAndStartKubelet bool "error option"
  | EvAddons "error option"
  | EvInstallNetwork "error option"
  | EvTokensDeploy "error option"
  | EvUpdateMasterRoleLabelsAndTaints "error option"
  | EvTryLoadKeyFromDisk string string "error + PrivateKey"
  | EvTryLoadPublicKeyFromDisk string string "error + PublicKey"
  | EvTryLoadCertAndKeyFromDisk string string
      "Certificate option \<times> PrivateKey option \<times> error option"
  | EvWriteFile string string nat "error option"
  | EvSpin

type_synonym history = "event list"

text \<open>
  The environment answers every call; an answer may depend on everything that happened
  before, so that any deterministic store, disk and toolchain is an instance.  The three
  PEM encoders are pure functions of the \<open>certutil\<close> package.
\<close>

record env =
  UpdateCloudCfg_res :: "history \<Rightarrow> error option"
  CopyKubeCa_res :: "history \<Rightarrow> error option"
  WriteManifests_res :: "history \<Rightarrow> error option"
  Get_res :: "history \<Rightarrow> string \<Rightarrow> error + string"
  GetOrCreateLock_res :: "history \<Rightarrow> string \<Rightarrow> Duration \<Rightarrow> error + bool"
  PutTx_res :: "history \<Rightarrow> string \<Rightarrow> string \<Rightarrow> error option"
  Delete_res :: "history \<Rightarrow> string \<Rightarrow> error option"
  CreatePKI_res :: "history \<Rightarrow> error option"
  CreateKubeConfig_res :: "history \<Rightarrow> error option"
  CreateAndStartKubelet_res :: "history \<Rightarrow> bool \<Rightarrow> error option"
  Addons_res :: "history \<Rightarrow> error option"
  InstallNetwork_res :: "history \<Rightarrow> error option"
  TokensDeploy_res :: "history \<Rightarrow> error option"
  UpdateMasterRoleLabelsAndTaints_res :: "history \<Rightarrow> error option"
  TryLoadKeyFromDisk_res :: "history \<Rightarrow> string \<Rightarrow> string \<Rightarrow> error + PrivateKey"
  TryLoadPublicKeyFromDisk_res :: "history \<Rightarrow> string \<Rightarrow> string \<Rightarrow> error + PublicKey"
  TryLoadCertAndKeyFromDisk_res ::
    "history \<Rightarrow> string \<Rightarrow> string \<Rightarrow> Certificate option \<times> PrivateKey option \<times> error option"
  WriteFile_res :: "history \<Rightarrow> string \<Rightarrow> string \<Rightarrow> nat \<Rightarrow> error option"
  EncodePublicKeyPEM :: "PublicKey \<Rightarrow> string"
  EncodePrivateKeyPEM :: "PrivateKey \<Rightarrow> string"
  EncodeCertPEM :: "Certificate \<Rightarrow> string"

subsection \<open>The calls, each appending its event\<close>

definition Etcd_Get :: "env \<Rightarrow> string \<Rightarrow> history \<Rightarrow> (error + string) \<times> history" where
  "Etcd_Get E key tr = (let r = Get_res E tr key in (r, tr @ [EvGet key r]))"

definition Etcd_GetOrCreateLock ::
  "env \<Rightarrow> string \<Rightarrow> Duration \<Rightarrow> history \<Rightarrow> (error + bool) \<times> history" where
  "Etcd_GetOrCreateLock E key ttl tr =
     (let r = GetOrCreateLock_res E tr key ttl in (r, tr @ [EvGetOrCreateLock key ttl r]))"

definition Etcd_PutTx :: "env \<Rightarrow> string \<Rightarrow> string \<Rightarrow> history \<Rightarrow> error option \<times> history" where
  "Etcd_PutTx E key val tr = (let r = PutTx_res E tr key val in (r, tr @ [EvPutTx key val r]))"

definition Etcd_Delete :: "env \<Rightarrow> string \<Rightarrow> history \<Rightarrow> error option \<times> history" where
  "Etcd_Delete E key tr = (let r = Delete_res E tr key in (r, tr @ [EvDelete key r]))"

definition time_Sleep :: "Duration \<Rightarrow> history \<Rightarrow> history" where
  "time_Sleep d tr = tr @ [EvSleep d]"

definition Kmm_UpdateCloudCfg :: "env \<Rightarrow> history \<Rightarrow> error option \<times> history" where
  "Kmm_UpdateCloudCfg E tr = (let r = UpdateCloudCfg_res E tr in (r, tr @ [EvUpdateCloudCfg r]))"

definition Kmm_CopyKubeCa :: "env \<Rightarrow> history \<Rightarrow> error option \<times> history" where
  "Kmm_CopyKubeCa E tr = (let r = CopyKubeCa_res E tr in (r, tr @ [EvCopyKubeCa r]))"

definition Kmm_InstallNetwork :: "env \<Rightarrow> history \<Rightarrow> error option \<times> history" where
  "Kmm_InstallNetwork E tr = (let r = InstallNetwork_res E tr in (r, tr @ [EvInstallNetwork r]))"

definition Kmm_TokensDeploy :: "env \<Rightarrow> history \<Rightarrow> error option \<times> history" where
  "Kmm_TokensDeploy E tr = (let r = TokensDeploy_res E tr in (r, tr @ [EvTokensDeploy r]))"

definition Kmm_CreateAndStartKubelet :: "env \<Rightarrow> bool \<Rightarrow> history \<Rightarrow> error option \<times> history" where
  "Kmm_CreateAndStartKubelet E master tr =
     (let r = CreateAndStartKubelet_res E tr master in (r, tr @ [EvCreateAndStartKubelet master r]))"

definition Kubeadm_WriteManifests :: "env \<Rightarrow> history \<Rightarrow> error option \<times> history" where
  "Kubeadm_WriteManifests E tr = (let r = WriteManifests_res E tr in (r, tr @ [EvWriteManifests r]))"

definition Kubeadm_CreatePKI :: "env \<Rightarrow> history \<Rightarrow> error option \<times> history" where
  "Kubeadm_CreatePKI E tr = (let r = CreatePKI_res E tr in (r, tr @ [EvCreatePKI r]))"

definition Kubeadm_CreateKubeConfig :: "env \<Rightarrow> history \<Rightarrow> error option \<times> history" where
  "Kubeadm_CreateKubeConfig E tr =
     (let r = CreateKubeConfig_res E tr in (r, tr @ [EvCreateKubeConfig r]))"

definition Kubeadm_Addons :: "env \<Rightarrow> history \<Rightarrow> error option \<times> history" where
  "Kubeadm_Addons E tr = (let r = Addons_res E tr in (r, tr @ [EvAddons r]))"

definition Kubeadm_UpdateMasterRoleLabelsAndTaints ::
  "env \<Rightarrow> history \<Rightarrow> error option \<times> history" where
  "Kubeadm_UpdateMasterRoleLabelsAndTaints E tr =
     (let r = UpdateMasterRoleLabelsAndTaints_res E tr
      in (r, tr @ [EvUpdateMasterRoleLabelsAndTaints r]))"

definition pkiutil_TryLoadKeyFromDisk ::
  "env \<Rightarrow> string \<Rightarrow> string \<Rightarrow> history \<Rightarrow> (error + PrivateKey) \<times> history" where
  "pkiutil_TryLoadKeyFromDisk E dir name tr =
     (let r = TryLoadKeyFromDisk_res E tr dir name in (r, tr @ [EvTryLoadKeyFromDisk dir name r]))"

definition pkiutil_TryLoadPublicKeyFromDisk ::
  "env \<Rightarrow> string \<Rightarrow> string \<Rightarrow> history \<Rightarrow> (error + PublicKey) \<times> history" where
  "pkiutil_TryLoadPublicKeyFromDisk E dir name tr =
     (let r = TryLoadPublicKeyFromDisk_res E tr dir name
      in (r, tr @ [EvTryLoadPublicKeyFromDisk dir name r]))"

definition pkiutil_TryLoadCertAndKeyFromDisk ::
  "env \<Rightarrow> string \<Rightarrow> string \<Rightarrow> history
     \<Rightarrow> (Certificate option \<times> PrivateKey option \<times> error option) \<times> history" where
  "pkiutil_TryLoadCertAndKeyFromDisk E dir name tr =
     (let r = TryLoadCertAndKeyFromDisk_res E tr dir name
      in (r, tr @ [EvTryLoadCertAndKeyFromDisk dir name r]))"

definition ioutil_WriteFile ::
  "env \<Rightarrow> string \<Rightarrow> string \<Rightarrow> nat \<Rightarrow> history \<Rightarrow> error option \<times> history" where
  "ioutil_WriteFile E path content perm tr =
     (let r = WriteFile_res E tr path content perm in (r, tr @ [EvWriteFile path content perm r]))"

section \<open>Failure cleanup\<close>

text \<open>\<open>func (k *Kmm) CleanUp(releaseLock, deleteAssets bool) (err error)\<close>\<close>

definition CleanUp :: "env \<Rightarrow> bool \<Rightarrow> bool \<Rightarrow> history \<Rightarrow> error option \<times> history" where
  "CleanUp E releaseLock deleteAssets tr =
     (case (if releaseLock then Etcd_Delete E assetLockKey tr else (None, tr)) of
        (Some e, tr1) \<Rightarrow> (Some e, tr1)
      | (None, tr1) \<Rightarrow>
          (case (if deleteAssets then Etcd_Delete E assetKey tr1 else (None, tr1)) of
             (Some e, tr2) \<Rightarrow> (Some e, tr2)
           | (None, tr2) \<Rightarrow> (None, tr2)))"


section \<open>UTF-8, as the JSON codec of the Go library uses it\<close>

text \<open>
  Modelled from the Go standard library (\<open>unicode/utf8\<close>, \<open>unicode/utf16\<close>), which is
  not part of this repository.  A Go string is a byte sequence, as \<open>string\<close> is here;
  runes are natural numbers.
\<close>

definition RuneError :: nat where
  "RuneError = 0xFFFD"

text \<open>\<open>utf8.DecodeRune\<close>: the rune at the head of the bytes and its width.\<close>

fun utf8_DecodeRune :: "string \<Rightarrow> nat \<times> nat" where
  "utf8_DecodeRune [] = (RuneError, 0)"
| "utf8_DecodeRune (c # p) =
     (let p0 = (of_char c :: nat) in
      if p0 < 0x80 then (p0, 1)
      else if p0 < 0xC2 \<or> 0xF5 \<le> p0 then (RuneError, 1)
      else
        let sz = (if p0 < 0xE0 then 2 else if p0 < 0xF0 then 3 else (4::nat));
            lo = (if p0 = 0xE0 then 0xA0 else if p0 = 0xF0 then 0x90 else (0x80::nat));
            hi = (if p0 = 0xED then 0x9F else if p0 = 0xF4 then 0x8F else (0xBF::nat))
        in
          if Suc (length p) < sz then (RuneError, 1)
          else
            let b1 = (of_char (p ! 0) :: nat) in
            if b1 < lo \<or> hi < b1 then (RuneError, 1)
            else if sz \<le> 2 then ((p0 mod 32) * 64 + b1 mod 64, 2)
            else
              let b2 = (of_char (p ! 1) :: nat) in
              if b2 < 0x80 \<or> 0xBF < b2 then (RuneError, 1)
              else if sz \<le> 3 then ((p0 mod 16) * 4096 + (b1 mod 64) * 64 + b2 mod 64, 3)
              else
                let b3 = (of_char (p ! 2) :: nat) in
                if b3 < 0x80 \<or> 0xBF < b3 then (RuneError, 1)
                else ((p0 mod 8) * 262144 + (b1 mod 64) * 4096 + (b2 mod 64) * 64 + b3 mod 64, 4))"

text \<open>\<open>utf8.EncodeRune\<close>: surrogates and runes beyond U+10FFFF are written as U+FFFD.\<close>

definition utf8_EncodeRune :: "nat \<Rightarrow> string" where
  "utf8_EncodeRune r =
     (if r \<le> 0x7F then [char_of r]
      else if r \<le> 0x7FF then [char_of (0xC0 + r div 64), char_of (0x80 + r mod 64)]
      else if 0x10FFFF < r \<or> (0xD800 \<le> r \<and> r \<le> 0xDFFF) then [CHR 0xEF, CHR 0xBF, CHR 0xBD]
      else if r \<le> 0xFFFF then
        [char_of (0xE0 + r div 4096), char_of (0x80 + (r div 64) mod 64), char_of (0x80 + r mod 64)]
      else
        [char_of (0xF0 + r div 262144), char_of (0x80 + (r div 4096) mod 64),
         char_of (0x80 + (r div 64) mod 64), char_of (0x80 + r mod 64)])"

definition utf16_IsSurrogate :: "nat \<Rightarrow> bool" where
  "utf16_IsSurrogate r = (0xD800 \<le> r \<and> r < 0xE000)"

definition utf16_DecodeRune :: "nat \<Rightarrow> nat \<Rightarrow> nat" where
  "utf16_DecodeRune r1 r2 =
     (if 0xD800 \<le> r1 \<and> r1 < 0xDC00 \<and> 0xDC00 \<le> r2 \<and> r2 < 0xE000
      then (r1 - 0xD800) * 1024 + (r2 - 0xDC00) + 0x10000
      else RuneError)"

section \<open>The JSON codec for the shared-asset bundle\<close>

text \<open>
  Modelled from the Go standard library (\<open>encoding/json\<close>), which is not part of this
  repository.  \<open>json_escape\<close> is the body of a string literal as \<open>json.Marshal\<close> writes
  it: the bytes \<open>"\<close> and \<open>\\<close> get a backslash, line feed, carriage return and tab their
  short escapes, every other byte below 0x20 and \<open><\<close>, \<open>>\<close>, \<open>&\<close> the form \<open>\u00XX\<close>, a byte
  that is not part of a well-formed UTF-8 sequence becomes the escape of U+FFFD, U+2028 and U+2029
  are escaped, and everything else is copied.
\<close>

definition hex :: string where
  "hex = ''0123456789abcdef''"

fun json_escape :: "string \<Rightarrow> string" where
  "json_escape [] = []"
| "json_escape (b # s) =
     (if (of_char b :: nat) < 0x80 then
        (if 0x20 \<le> (of_char b :: nat) \<and> b \<noteq> bsl \<and> b \<noteq> dq
            \<and> b \<noteq> CHR ''<'' \<and> b \<noteq> CHR ''>'' \<and> b \<noteq> CHR ''&''
         then b # json_escape s
         else if b = bsl \<or> b = dq then bsl # b # json_escape s
         else if b = CHR 0x0A then bsl # CHR ''n'' # json_escape s
         else if b = CHR 0x0D then bsl # CHR ''r'' # json_escape s
         else if b = CHR 0x09 then bsl # CHR ''t'' # json_escape s
         else bsl # CHR ''u'' # CHR ''0'' # CHR ''0''
                # hex ! ((of_char b :: nat) div 16) # hex ! ((of_char b :: nat) mod 16)
                # json_escape s)
      else
        (case utf8_DecodeRune (b # s) of
           (c, w) \<Rightarrow>
             if c = RuneError \<and> w = 1 then
               bsl # CHR ''u'' # CHR ''f'' # CHR ''f'' # CHR ''f'' # CHR ''d'' # json_escape s
             else if c = 0x2028 \<or> c = 0x2029 then
               bsl # CHR ''u'' # CHR ''2'' # CHR ''0'' # CHR ''2'' # hex ! (c mod 16)
                 # json_escape (drop (w - 1) s)
             else b # take (w - 1) s @ json_escape (drop (w - 1) s)))"

definition json_quote :: "string \<Rightarrow> string" where
  "json_quote s = dq # json_escape s @ [dq]"

text \<open>
  \<open>json.Marshal\<close> of a \<open>SharedAssets\<close> value: an object with the four exported fields
  in declaration order.  It cannot fail on a struct of strings.
\<close>

definition json_Marshal :: "SharedAssets \<Rightarrow> string" where
  "json_Marshal v =
     CHR ''{'' # json_quote ''FrontProxyCa'' @ CHR '':'' # json_quote (FrontProxyCa v)
     @ CHR '','' # json_quote ''FrontProxyCaKey'' @ CHR '':'' # json_quote (FrontProxyCaKey v)
     @ CHR '','' # json_quote ''SaPub'' @ CHR '':'' # json_quote (SaPub v)
     @ CHR '','' # json_quote ''SaKey'' @ CHR '':'' # json_quote (SaKey v)
     @ ''}''"

subsection \<open>Decoding\<close>

text \<open>
  \<open>json.Unmarshal\<close> first checks that the whole input is one well-formed JSON value
  (\<open>checkValid\<close>), and only then decodes.  The check is modelled in two layers that
  together accept what the scanner of the library accepts: a lexical layer, \<open>lex\<close>, and
  a structural layer, \<open>valid\<close>, over the tokens.

  The lexical layer knows white space (space, tab, carriage return, line feed), the six
  punctuation marks, string literals, numbers and the three literal names.  In a string
  literal a byte below 0x20 is an error and a backslash must be followed by one of
  \<open>"\/bfnrt\<close> or by \<open>u\<close> and four hexadecimal digits; bytes from 0x80 on are not looked at.
  A number is an optional minus, then \<open>0\<close> or a digit from 1 to 9 followed by digits, then
  optionally a point and at least one digit, then optionally \<open>e\<close> or \<open>E\<close>, an optional
  sign and at least one digit.  A string literal is kept as its raw body.
\<close>

datatype token =
  LBrace | RBrace | LBrack | RBrack | Colon | Comma | Str string | Number | Bool bool | Null

datatype scan =
  Outside | InStr string | InEsc string | InU nat string
| InNeg | In0 | In1 | InDot | InDot0 | InE | InESign | InE0
| InLit string token

definition isSpace :: "char \<Rightarrow> bool" where
  "isSpace c = (c = CHR '' '' \<or> c = CHR 0x09 \<or> c = CHR 0x0D \<or> c = CHR 0x0A)"

definition isDigit :: "char \<Rightarrow> bool" where
  "isDigit c = (48 \<le> (of_char c :: nat) \<and> (of_char c :: nat) \<le> 57)"

definition hexval :: "char \<Rightarrow> nat option" where
  "hexval c =
     (let n = (of_char c :: nat) in
      if 48 \<le> n \<and> n \<le> 57 then Some (n - 48)
      else if 97 \<le> n \<and> n \<le> 102 then Some (n - 87)
      else if 65 \<le> n \<and> n \<le> 70 then Some (n - 55)
      else None)"

text \<open>
  \<open>beginValue\<close>: a byte met between tokens.  It is skipped, is a token by itself, or
  opens a string, a number or a literal name.
\<close>

definition beginValue :: "char \<Rightarrow> (token list \<times> scan) option" where
  "beginValue c =
     (if isSpace c then Some ([], Outside)
      else if c = CHR ''{'' then Some ([LBrace], Outside)
      else if c = CHR ''}'' then Some ([RBrace], Outside)
      else if c = CHR ''['' then Some ([LBrack], Outside)
      else if c = CHR '']'' then Some ([RBrack], Outside)
      else if c = CHR '':'' then Some ([Colon], Outside)
      else if c = CHR '','' then Some ([Comma], Outside)
      else if c = dq then Some ([], InStr [])
      else if c = CHR ''-'' then Some ([], InNeg)
      else if c = CHR ''0'' then Some ([], In0)
      else if isDigit c then Some ([], In1)
      else if c = CHR ''t'' then Some ([], InLit ''rue'' (Bool True))
      else if c = CHR ''f'' then Some ([], InLit ''alse'' (Bool False))
      else if c = CHR ''n'' then Some ([], InLit ''ull'' Null)
      else None)"

text \<open>A byte that cannot continue a number ends it and is then read as any byte between tokens.\<close>

definition endNumber :: "char \<Rightarrow> (token list \<times> scan) option" where
  "endNumber c = map_option (\<lambda>(ts, st). (Number # ts, st)) (beginValue c)"

definition after0 :: "char \<Rightarrow> (token list \<times> scan) option" where
  "after0 c =
     (if c = CHR ''.'' then Some ([], InDot)
      else if c = CHR ''e'' \<or> c = CHR ''E'' then Some ([], InE)
      else endNumber c)"

fun scanStep :: "scan \<Rightarrow> char \<Rightarrow> (token list \<times> scan) option" where
  "scanStep Outside c = beginValue c"
| "scanStep (InStr acc) c =
     (if c = dq then Some ([Str (rev acc)], Outside)
      else if c = bsl then Some ([], InEsc (c # acc))
      else if (of_char c :: nat) < 0x20 then None
      else Some ([], InStr (c # acc)))"
| "scanStep (InEsc acc) c =
     (if c \<in> set ''bfnrt/'' \<or> c = bsl \<or> c = dq then Some ([], InStr (c # acc))
      else if c = CHR ''u'' then Some ([], InU 4 (c # acc))
      else None)"
| "scanStep (InU n acc) c =
     (if hexval c = None then None
      else if n \<le> 1 then Some ([], InStr (c # acc))
      else Some ([], InU (n - 1) (c # acc)))"
| "scanStep InNeg c =
     (if c = CHR ''0'' then Some ([], In0) else if isDigit c then Some ([], In1) else None)"
| "scanStep In0 c = after0 c"
| "scanStep In1 c = (if isDigit c then Some ([], In1) else after0 c)"
| "scanStep InDot c = (if isDigit c then Some ([], InDot0) else None)"
| "scanStep InDot0 c =
     (if isDigit c then Some ([], InDot0)
      else if c = CHR ''e'' \<or> c = CHR ''E'' then Some ([], InE)
      else endNumber c)"
| "scanStep InE c =
     (if c = CHR ''+'' \<or> c = CHR ''-'' then Some ([], InESign)
      else if isDigit c then Some ([], InE0)
      else None)"
| "scanStep InESign c = (if isDigit c then Some ([], InE0) else None)"
| "scanStep InE0 c = (if isDigit c then Some ([], InE0) else endNumber c)"
| "scanStep (InLit [] t) c = None"
| "scanStep (InLit (r # rs) t) c =
     (if c \<noteq> r then None
      else if rs = [] then Some ([t], Outside)
      else Some ([], InLit rs t))"

text \<open>At the end of the input a number may be open; a string or a literal name may not.\<close>

fun lex :: "scan \<Rightarrow> string \<Rightarrow> token list option" where
  "lex st [] =
     (if st = Outside then Some []
      else if st = In0 \<or> st = In1 \<or> st = InDot0 \<or> st = InE0 then Some [Number]
      else None)"
| "lex st (c # cs) =
     (case scanStep st c of
        None \<Rightarrow> None
      | Some (ts, st') \<Rightarrow> map_option ((@) ts) (lex st' cs))"

text \<open>
  The structural layer follows the states of the library's scanner that lie between
  tokens, with its stack of open objects and arrays.  Nesting deeper than 10000 is an
  error (releases of the library before 1.15 have no such limit).
\<close>

datatype parseState = parseObjectKey | parseObjectValue | parseArrayValue

datatype step =
  stateBeginValue | stateBeginValueOrEmpty | stateBeginStringOrEmpty | stateBeginString
| stateEndValue

definition maxNestingDepth :: nat where
  "maxNestingDepth = 10000"

definition endValue :: "parseState list \<Rightarrow> token \<Rightarrow> (step \<times> parseState list) option" where
  "endValue ps t =
     (case ps of
        [] \<Rightarrow> None
      | parseObjectKey # ps' \<Rightarrow>
          if t = Colon then Some (stateBeginValue, parseObjectValue # ps') else None
      | parseObjectValue # ps' \<Rightarrow>
          if t = Comma then Some (stateBeginString, parseObjectKey # ps')
          else if t = RBrace then Some (stateEndValue, ps')
          else None
      | parseArrayValue # ps' \<Rightarrow>
          if t = Comma then Some (stateBeginValue, ps)
          else if t = RBrack then Some (stateEndValue, ps')
          else None)"

definition pushParseState ::
  "parseState \<Rightarrow> step \<Rightarrow> parseState list \<Rightarrow> (step \<times> parseState list) option" where
  "pushParseState p st ps =
     (if Suc (length ps) \<le> maxNestingDepth then Some (st, p # ps) else None)"

definition beginValueTok :: "parseState list \<Rightarrow> token \<Rightarrow> (step \<times> parseState list) option" where
  "beginValueTok ps t =
     (case t of
        LBrace \<Rightarrow> pushParseState parseObjectKey stateBeginStringOrEmpty ps
      | LBrack \<Rightarrow> pushParseState parseArrayValue stateBeginValueOrEmpty ps
      | Str s \<Rightarrow> Some (stateEndValue, ps)
      | Number \<Rightarrow> Some (stateEndValue, ps)
      | Bool b \<Rightarrow> Some (stateEndValue, ps)
      | Null \<Rightarrow> Some (stateEndValue, ps)
      | _ \<Rightarrow> None)"

definition beginStringTok :: "parseState list \<Rightarrow> token \<Rightarrow> (step \<times> parseState list) option" where
  "beginStringTok ps t = (case t of Str s \<Rightarrow> Some (stateEndValue, ps) | _ \<Rightarrow> None)"

fun tokStep :: "step \<Rightarrow> parseState list \<Rightarrow> token \<Rightarrow> (step \<times> parseState list) option" where
  "tokStep stateBeginValue ps t = beginValueTok ps t"
| "tokStep stateBeginValueOrEmpty ps t =
     (if t = RBrack then endValue ps t else beginValueTok ps t)"
| "tokStep stateBeginStringOrEmpty ps t =
     (if t = RBrace then endValue (parseObjectValue # tl ps) t else beginStringTok ps t)"
| "tokStep stateBeginString ps t = beginStringTok ps t"
| "tokStep stateEndValue ps t = endValue ps t"

fun valid :: "step \<Rightarrow> parseState list \<Rightarrow> token list \<Rightarrow> bool" where
  "valid st ps [] = (st = stateEndValue \<and> ps = [])"
| "valid st ps (t # ts) =
     (case tokStep st ps t of None \<Rightarrow> False | Some (st', ps') \<Rightarrow> valid st' ps' ts)"

definition checkValid :: "string \<Rightarrow> token list option" where
  "checkValid data =
     (case lex Outside data of
        None \<Rightarrow> None
      | Some ts \<Rightarrow> if valid stateBeginValue [] ts then Some ts else None)"

text \<open>\<open>getu4\<close>: the number of a \<open>\uXXXX\<close> escape at the head of the bytes, if there is one.\<close>

fun getu4 :: "string \<Rightarrow> nat option" where
  "getu4 (b # u # h1 # h2 # h3 # h4 # s) =
     (if b = bsl \<and> u = CHR ''u'' then
        (case (hexval h1, hexval h2, hexval h3, hexval h4) of
           (Some a, Some b, Some c, Some d) \<Rightarrow> Some (a * 4096 + b * 256 + c * 16 + d)
         | _ \<Rightarrow> None)
      else None)"
| "getu4 _ = None"

definition oapp :: "string \<Rightarrow> string option \<Rightarrow> string option" where
  "oapp x r = map_option ((@) x) r"

text \<open>
  \<open>unquote\<close>: the bytes a raw literal body stands for; \<open>None\<close> when it is malformed, which
  it never is for a literal that \<open>lex\<close> has accepted.  Bytes from 0x80 on are decoded and
  encoded again, so that what is not well-formed UTF-8 comes out as U+FFFD.
\<close>

fun unquote :: "string \<Rightarrow> string option" where
  "unquote [] = Some []"
| "unquote (c # s) =
     (if c = bsl then
        (case s of
           [] \<Rightarrow> None
         | e # s' \<Rightarrow>
             if e = dq \<or> e = bsl \<or> e = CHR ''/'' \<or> e = CHR 0x27 then oapp [e] (unquote s')
             else if e = CHR ''b'' then oapp [CHR 0x08] (unquote s')
             else if e = CHR ''f'' then oapp [CHR 0x0C] (unquote s')
             else if e = CHR ''n'' then oapp [CHR 0x0A] (unquote s')
             else if e = CHR ''r'' then oapp [CHR 0x0D] (unquote s')
             else if e = CHR ''t'' then oapp [CHR 0x09] (unquote s')
             else if e = CHR ''u'' then
               (case getu4 (c # s) of
                  None \<Rightarrow> None
                | Some rr \<Rightarrow>
                    if utf16_IsSurrogate rr then
                      (if (case getu4 (drop 5 s) of None \<Rightarrow> RuneError
                                                  | Some rr1 \<Rightarrow> utf16_DecodeRune rr rr1) \<noteq> RuneError
                       then oapp (utf8_EncodeRune (utf16_DecodeRune rr (the (getu4 (drop 5 s)))))
                                 (unquote (drop 11 s))
                       else oapp (utf8_EncodeRune RuneError) (unquote (drop 5 s)))
                    else oapp (utf8_EncodeRune rr) (unquote (drop 5 s)))
             else None)
      else if c = dq \<or> (of_char c :: nat) < 0x20 then None
      else if (of_char c :: nat) < 0x80 then oapp [c] (unquote s)
      else oapp (utf8_EncodeRune (fst (utf8_DecodeRune (c # s))))
                (unquote (drop (snd (utf8_DecodeRune (c # s)) - 1) s)))"

text \<open>
  The members of the top-level object, in order: the raw key, and what the value is.
  The decoder reads a key, a colon and a value, and then a comma or the closing brace.
  A value that is an object or an array is passed over up to its closing bracket.
\<close>

datatype jvalue = VString string | VNull | VOther string

datatype objectState =
  AtKeyOrEnd | AtKey | AtColon string | AtValue string | Skipping nat | AfterValue | Closed

fun objectStep :: "objectState \<Rightarrow> token \<Rightarrow> ((string \<times> jvalue) list \<times> objectState) option" where
  "objectStep AtKeyOrEnd t =
     (case t of RBrace \<Rightarrow> Some ([], Closed) | Str k \<Rightarrow> Some ([], AtColon k) | _ \<Rightarrow> None)"
| "objectStep AtKey t = (case t of Str k \<Rightarrow> Some ([], AtColon k) | _ \<Rightarrow> None)"
| "objectStep (AtColon k) t = (if t = Colon then Some ([], AtValue k) else None)"
| "objectStep (AtValue k) t =
     (case t of
        Str x \<Rightarrow> Some ([(k, VString x)], AfterValue)
      | Null \<Rightarrow> Some ([(k, VNull)], AfterValue)
      | Bool b \<Rightarrow> Some ([(k, VOther ''bool'')], AfterValue)
      | Number \<Rightarrow> Some ([(k, VOther ''number'')], AfterValue)
      | LBrace \<Rightarrow> Some ([(k, VOther ''object'')], Skipping 0)
      | LBrack \<Rightarrow> Some ([(k, VOther ''array'')], Skipping 0)
      | _ \<Rightarrow> None)"
| "objectStep (Skipping d) t =
     (if t = LBrace \<or> t = LBrack then Some ([], Skipping (Suc d))
      else if t = RBrace \<or> t = RBrack then
        (case d of 0 \<Rightarrow> Some ([], AfterValue) | Suc d' \<Rightarrow> Some ([], Skipping d'))
      else Some ([], Skipping d))"
| "objectStep AfterValue t =
     (if t = Comma then Some ([], AtKey) else if t = RBrace then Some ([], Closed) else None)"
| "objectStep Closed t = None"

fun members :: "objectState \<Rightarrow> token list \<Rightarrow> (string \<times> jvalue) list option" where
  "members st [] = (if st = Closed then Some [] else None)"
| "members st (t # ts) =
     (if st = Closed then Some []
      else (case objectStep st t of
              None \<Rightarrow> None
            | Some (kvs, st') \<Rightarrow> map_option ((@) kvs) (members st' ts)))"

definition object :: "token list \<Rightarrow> (string \<times> jvalue) list option" where
  "object ts = members AtKeyOrEnd ts"

text \<open>
  The fields of \<open>SharedAssets\<close>.  A key of the input selects the field whose name it is
  exactly, and otherwise the first field whose name it is under case folding.  The
  names are ASCII, so a key folds to a name when it has the same letters without
  regard to case, where U+017F (long s) also stands for \<open>s\<close> and U+212A (the Kelvin sign)
  for \<open>k\<close>: no other character folds to an ASCII letter.
\<close>

datatype field = FrontProxyCaField | FrontProxyCaKeyField | SaPubField | SaKeyField

definition structFields :: "field list" where
  "structFields = [FrontProxyCaField, FrontProxyCaKeyField, SaPubField, SaKeyField]"

fun fieldName :: "field \<Rightarrow> string" where
  "fieldName FrontProxyCaField = ''FrontProxyCa''"
| "fieldName FrontProxyCaKeyField = ''FrontProxyCaKey''"
| "fieldName SaPubField = ''SaPub''"
| "fieldName SaKeyField = ''SaKey''"

fun setField :: "field \<Rightarrow> string \<Rightarrow> SharedAssets \<Rightarrow> SharedAssets" where
  "setField FrontProxyCaField x v = v\<lparr>FrontProxyCa := x\<rparr>"
| "setField FrontProxyCaKeyField x v = v\<lparr>FrontProxyCaKey := x\<rparr>"
| "setField SaPubField x v = v\<lparr>SaPub := x\<rparr>"
| "setField SaKeyField x v = v\<lparr>SaKey := x\<rparr>"

definition smallLongEss :: nat where
  "smallLongEss = 0x17F"

definition kelvin :: nat where
  "kelvin = 0x212A"

text \<open>\<open>upper b\<close> is the byte \<open>b\<close> with the bit 0x20 cleared.\<close>

definition upper :: "char \<Rightarrow> nat" where
  "upper b = (of_char b :: nat) - 32 * (((of_char b :: nat) div 32) mod 2)"

fun equalFold :: "string \<Rightarrow> string \<Rightarrow> bool" where
  "equalFold [] t = (t = [])"
| "equalFold (sb # s) [] = False"
| "equalFold (sb # s) (tb # t) =
     (if (of_char tb :: nat) < 0x80 then
        (sb = tb \<or> (65 \<le> upper sb \<and> upper sb \<le> 90 \<and> upper sb = upper tb)) \<and> equalFold s t
      else
        (case utf8_DecodeRune (tb # t) of
           (tr, w) \<Rightarrow>
             (if sb = CHR ''s'' \<or> sb = CHR ''S'' then tr = smallLongEss
              else if sb = CHR ''k'' \<or> sb = CHR ''K'' then tr = kelvin
              else False)
             \<and> equalFold s (drop w (tb # t))))"

definition findField :: "string \<Rightarrow> field option" where
  "findField key =
     (case find (\<lambda>f. fieldName f = key) structFields of
        Some f \<Rightarrow> Some f
      | None \<Rightarrow> find (\<lambda>f. equalFold (fieldName f) key) structFields)"

text \<open>
  Errors of the decoder.  A syntax error is one value here, whatever its message and
  offset.  A type error names the kind of JSON value that cannot be stored.
\<close>

definition SyntaxError :: error where
  "SyntaxError = Err ''json: syntax error''"

definition UnmarshalTypeError :: "string \<Rightarrow> field option \<Rightarrow> error" where
  "UnmarshalTypeError val f =
     (case f of
        None \<Rightarrow> Err (''json: cannot unmarshal '' @ val @ '' into Go value of type kubeadm.SharedAssets'')
      | Some g \<Rightarrow> Err (''json: cannot unmarshal '' @ val @ '' into Go struct field SharedAssets.''
                       @ fieldName g @ '' of type string''))"

definition phaseError :: error where
  "phaseError = Err ''JSON decoder out of sync - data changing underfoot?''"

text \<open>
  One member of the top-level object.  A key that selects no field is skipped, whatever
  its value.  A string is stored in the field; \<open>null\<close> leaves the field as it is; any
  other value leaves the field as it is and is recorded as a type error, of which the
  first is kept.  Decoding goes on with the next member in every case.
\<close>

definition storeMember ::
  "error option \<times> SharedAssets \<Rightarrow> string \<times> jvalue \<Rightarrow> error option \<times> SharedAssets" where
  "storeMember st kv =
     (case findField (fst kv) of
        None \<Rightarrow> st
      | Some f \<Rightarrow>
          (case snd kv of
             VString x \<Rightarrow> (fst st, setField f x (snd st))
           | VNull \<Rightarrow> st
           | VOther val \<Rightarrow>
               (if fst st = None then (Some (UnmarshalTypeError val (Some f)), snd st) else st)))"

fun unquoteAll :: "(string \<times> jvalue) list \<Rightarrow> (string \<times> jvalue) list option" where
  "unquoteAll [] = Some []"
| "unquoteAll ((k, v) # ms) =
     (case (unquote k,
            (case v of VString x \<Rightarrow> map_option VString (unquote x) | _ \<Rightarrow> Some v),
            unquoteAll ms) of
        (Some k', Some v', Some ms') \<Rightarrow> Some ((k', v') # ms')
      | _ \<Rightarrow> None)"

text \<open>
  \<open>json.Unmarshal(data, &v)\<close> for \<open>v\<close> of type \<open>SharedAssets\<close>.  On a syntax error nothing is
  stored.  A top-level \<open>null\<close> stores nothing and is no error; any other top-level value
  that is not an object is a type error.  The members of an object are stored in order,
  so a later duplicate wins.
\<close>

definition json_Unmarshal :: "string \<Rightarrow> SharedAssets \<Rightarrow> error option \<times> SharedAssets" where
  "json_Unmarshal data v =
     (case checkValid data of
        None \<Rightarrow> (Some SyntaxError, v)
      | Some ts \<Rightarrow>
          (case ts of
             LBrace # ms \<Rightarrow>
               (case object ms of
                  None \<Rightarrow> (Some phaseError, v)
                | Some raw \<Rightarrow>
                    (case unquoteAll raw of
                       None \<Rightarrow> (Some phaseError, v)
                     | Some kvs \<Rightarrow> foldl storeMember (None, v) kvs))
           | LBrack # r \<Rightarrow> (Some (UnmarshalTypeError ''array'' None), v)
           | Str x # r \<Rightarrow> (Some (UnmarshalTypeError ''string'' None), v)
           | Number # r \<Rightarrow> (Some (UnmarshalTypeError ''number'' None), v)
           | Bool b # r \<Rightarrow> (Some (UnmarshalTypeError ''bool'' None), v)
           | Null # r \<Rightarrow> (None, v)
           | _ \<Rightarrow> (Some phaseError, v)))"

section \<open>Package kubeadm: the shared assets on disk\<close>

text \<open>
  The paths are those of \<open>kubeadmconstants\<close> (Kubernetes, not part of this repository).
\<close>

definition KubernetesDir :: string where
  "KubernetesDir = ''/etc/kubernetes''"

definition PkiDir :: string where
  "PkiDir = KubernetesDir @ ''/pki''"

definition ServiceAccountKeyBaseName :: string where
  "ServiceAccountKeyBaseName = ''sa''"

definition ServiceAccountPublicKeyName :: string where
  "ServiceAccountPublicKeyName = ''sa.pub''"

definition ServiceAccountPrivateKeyName :: string where
  "ServiceAccountPrivateKeyName = ''sa.key''"

definition FrontProxyCACertAndKeyBaseName :: string where
  "FrontProxyCACertAndKeyBaseName = ''front-proxy-ca''"

definition FrontProxyCACertName :: string where
  "FrontProxyCACertName = ''front-proxy-ca.crt''"

definition FrontProxyCAKeyName :: string where
  "FrontProxyCAKeyName = ''front-proxy-ca.key''"

text \<open>
  \<open>func (k *Config) LoadAndSerializeAssets() (assets string, err error)\<close>.
  Both results are returned, as in Go: the empty string and the error on failure.
\<close>

definition LoadAndSerializeAssets :: "env \<Rightarrow> history \<Rightarrow> (string \<times> error option) \<times> history" where
  "LoadAndSerializeAssets E tr =
     (case pkiutil_TryLoadKeyFromDisk E PkiDir ServiceAccountKeyBaseName tr of
        (Inl e, tr1) \<Rightarrow>
          (('''', Some (Errorf ''SA private key could not be loaded properly [%v]'' e)), tr1)
      | (Inr saKey, tr1) \<Rightarrow>
          (case pkiutil_TryLoadPublicKeyFromDisk E PkiDir ServiceAccountKeyBaseName tr1 of
             (Inl e, tr2) \<Rightarrow>
               (('''', Some (Errorf ''SA public key could not be loaded properly [%v]'' e)), tr2)
           | (Inr saPub, tr2) \<Rightarrow>
               (case pkiutil_TryLoadCertAndKeyFromDisk E PkiDir FrontProxyCACertAndKeyBaseName tr2 of
                  ((Some frontProxyCACert, Some frontProxyCAKey, None), tr3) \<Rightarrow>
                    if \<not> IsCA frontProxyCACert then
                      (('''', Some (Err
                         ''certificate and key could be loaded but the certificate is not a CA'')),
                       tr3)
                    else
                      let sharedAssets =
                            \<lparr> FrontProxyCa = EncodeCertPEM E frontProxyCACert,
                              FrontProxyCaKey = EncodePrivateKeyPEM E frontProxyCAKey,
                              SaPub = EncodePublicKeyPEM E saPub,
                              SaKey = EncodePrivateKeyPEM E saKey \<rparr>
                      in ((json_Marshal sharedAssets, None), tr3)
                | (_, tr3) \<Rightarrow>
                    (('''', Some (Err
                       ''Front proxy certificate and/or key existed but they could not be loaded properly'')),
                     tr3))))"

text \<open>
  \<open>func (k *Config) SaveAssets(assets string) (err error)\<close>.  The result of
  \<open>json.Unmarshal\<close> is not looked at: only the decoded struct is used.  File modes are
  \<open>0644\<close> = 420 and \<open>0600\<close> = 384.
\<close>

definition SaveAssets :: "env \<Rightarrow> string \<Rightarrow> history \<Rightarrow> error option \<times> history" where
  "SaveAssets E assets tr =
     (let pkiDir = PkiDir @ ''/'';
          sharedAssets =
            snd (json_Unmarshal assets
                   \<lparr> FrontProxyCa = [], FrontProxyCaKey = [], SaPub = [], SaKey = [] \<rparr>)
      in
       (case ioutil_WriteFile E (pkiDir @ ServiceAccountPublicKeyName) (SaPub sharedAssets) 420 tr of
          (Some e, tr1) \<Rightarrow>
            (Some (Errorf ''Service Account public key could not saved [%v]'' e), tr1)
        | (None, tr1) \<Rightarrow>
       (case ioutil_WriteFile E (pkiDir @ ServiceAccountPrivateKeyName) (SaKey sharedAssets) 384 tr1 of
          (Some e, tr2) \<Rightarrow>
            (Some (Errorf ''Service Account private key could not saved [%v]'' e), tr2)
        | (None, tr2) \<Rightarrow>
       (case ioutil_WriteFile E (pkiDir @ FrontProxyCACertName) (FrontProxyCa sharedAssets) 420 tr2 of
          (Some e, tr3) \<Rightarrow>
            (Some (Errorf ''Front proxy public ca cert could not saved [%v]'' e), tr3)
        | (None, tr3) \<Rightarrow>
       (case ioutil_WriteFile E (pkiDir @ FrontProxyCAKeyName) (FrontProxyCaKey sharedAssets) 384 tr3 of
          (Some e, tr4) \<Rightarrow>
            (Some (Errorf ''Front proxy private key could not saved [%v]'' e), tr4)
        | (None, tr4) \<Rightarrow> (None, tr4))))))"

section \<open>Package kmm: configuration\<close>

text \<open>
  \<open>ConfigType\<close>.  The three interface fields (\<open>Etcd\<close>, \<open>Kubeadm\<close>, \<open>Kmm\<close>) are the
  environment; \<open>KubeadmCfg\<close> is read by no function modelled here.
\<close>

record Config =
  KubePersistentCaCert :: string
  KubePersistentCaKey :: string
  ClusterName :: string
  NetworkProvider :: string
  MasterBackOffTime :: Duration
  ExitOnCompletion :: bool
  KubeletExtraArgs :: string
  NodeLabels :: "string \<rightharpoonup> string"
  NodeTaints :: "string \<rightharpoonup> string"

text \<open>\<open>func New(cfg Config) *Config\<close>: the first statement overwrites the back-off.\<close>

definition New :: "Config \<Rightarrow> Config" where
  "New cfg = cfg\<lparr>MasterBackOffTime := defaultBackOff\<rparr>"

section \<open>The two bootstrap sequences\<close>

text \<open>
  \<open>func (k *Config) BootstrapOnce() (assets string, err error)\<close>.  The \<open>err\<close> of
  \<open>LoadAndSerializeAssets\<close> is assigned and then overwritten by the next statement,
  \<open>if err = k.Kubeadm.CreateKubeConfig(); ...\<close>, without having been read.
\<close>

definition BootstrapOnce :: "env \<Rightarrow> history \<Rightarrow> (string \<times> error option) \<times> history" where
  "BootstrapOnce E tr =
     (case Kubeadm_CreatePKI E tr of
        (Some e, tr1) \<Rightarrow> (('''', Some e), tr1)
      | (None, tr1) \<Rightarrow>
     (case LoadAndSerializeAssets E tr1 of
        ((assets, err), tr2) \<Rightarrow>
     (case Kubeadm_CreateKubeConfig E tr2 of
        (Some e, tr3) \<Rightarrow> (('''', Some e), tr3)
      | (None, tr3) \<Rightarrow>
     (case Kmm_CreateAndStartKubelet E True tr3 of
        (Some e, tr4) \<Rightarrow> (('''', Some e), tr4)
      | (None, tr4) \<Rightarrow>
     (case Kubeadm_Addons E tr4 of
        (Some e, tr5) \<Rightarrow> (('''', Some e), tr5)
      | (None, tr5) \<Rightarrow>
     (case Kmm_InstallNetwork E tr5 of
        (Some e, tr6) \<Rightarrow> (('''', Some e), tr6)
      | (None, tr6) \<Rightarrow>
     (case Kmm_TokensDeploy E tr6 of
        (Some e, tr7) \<Rightarrow> (('''', Some e), tr7)
      | (None, tr7) \<Rightarrow> ((assets, None), tr7))))))))"

text \<open>\<open>func (k *Config) BootstrapSecondaryMaster(assets string) (error)\<close>\<close>

definition BootstrapSecondaryMaster :: "env \<Rightarrow> string \<Rightarrow> history \<Rightarrow> error option \<times> history" where
  "BootstrapSecondaryMaster E assets tr =
     (case SaveAssets E assets tr of
        (Some e, tr1) \<Rightarrow> (Some e, tr1)
      | (None, tr1) \<Rightarrow>
     (case Kubeadm_CreatePKI E tr1 of
        (Some e, tr2) \<Rightarrow> (Some e, tr2)
      | (None, tr2) \<Rightarrow>
     (case Kubeadm_CreateKubeConfig E tr2 of
        (Some e, tr3) \<Rightarrow> (Some e, tr3)
      | (None, tr3) \<Rightarrow>
     (case Kmm_CreateAndStartKubelet E True tr3 of
        (Some e, tr4) \<Rightarrow> (Some e, tr4)
      | (None, tr4) \<Rightarrow>
     (case Kubeadm_UpdateMasterRoleLabelsAndTaints E tr4 of
        (Some e, tr5) \<Rightarrow> (Some e, tr5)
      | (None, tr5) \<Rightarrow> (None, tr5))))))"

section \<open>The election loop\<close>

text \<open>
  The loop \<open>for true { ... }\<close> of \<open>CreateOrGetSharedAssets\<close> leaves in one of two ways:
  by \<open>return err\<close> or by \<open>break\<close>.  Under lasting lock contention it does not leave at
  all, so it takes fuel: one unit per iteration.
\<close>

datatype loopExit = LoopReturn error | LoopBreak | LoopOutOfFuel

fun electionLoop :: "nat \<Rightarrow> env \<Rightarrow> Config \<Rightarrow> history \<Rightarrow> loopExit \<times> history" where
  "electionLoop 0 E k tr = (LoopOutOfFuel, tr)"
| "electionLoop (Suc n) E k tr =
     (case Etcd_Get E assetKey tr of
        (Inl err, tr1) \<Rightarrow>
          if err = ErrKeyMissing then
            (case Etcd_GetOrCreateLock E assetLockKey defaultLockTTL tr1 of
               (Inl err2, tr2) \<Rightarrow> (LoopReturn err2, tr2)
             | (Inr mylock, tr2) \<Rightarrow>
                 if mylock then
                   (case BootstrapOnce E tr2 of
                      ((assets, Some err3), tr3) \<Rightarrow>
                        (LoopReturn err3, snd (CleanUp E True False tr3))
                    | ((assets, None), tr3) \<Rightarrow>
                        (case Etcd_PutTx E assetKey assets tr3 of
                           (Some err4, tr4) \<Rightarrow> (LoopReturn err4, snd (CleanUp E True False tr4))
                         | (None, tr4) \<Rightarrow> (LoopBreak, tr4)))
                 else electionLoop n E k (time_Sleep (MasterBackOffTime k) tr2))
          else (LoopReturn err, tr1)
      | (Inr assets, tr1) \<Rightarrow>
          (case BootstrapSecondaryMaster E assets tr1 of
             (Some err2, tr2) \<Rightarrow> (LoopReturn err2, tr2)
           | (None, tr2) \<Rightarrow> (LoopBreak, tr2)))"

text \<open>
  The keep-alive \<open>for true {}\<close>: an empty body and no exit.  Whatever the fuel, it is used
  up, one iteration per unit.
\<close>

datatype outcome = Returns "error option" | OutOfFuel

fun keepAlive :: "nat \<Rightarrow> history \<Rightarrow> outcome \<times> history" where
  "keepAlive 0 tr = (OutOfFuel, tr)"
| "keepAlive (Suc n) tr = keepAlive n (tr @ [EvSpin])"

text \<open>
  \<open>func (k *Config) CreateOrGetSharedAssets() (err error)\<close>.  The fuel bounds the
  iterations of each of its two loops.
\<close>

definition CreateOrGetSharedAssets :: "nat \<Rightarrow> env \<Rightarrow> Config \<Rightarrow> history \<Rightarrow> outcome \<times> history" where
  "CreateOrGetSharedAssets fuel E k tr =
     (case Kmm_UpdateCloudCfg E tr of
        (Some e, tr1) \<Rightarrow> (Returns (Some e), tr1)
      | (None, tr1) \<Rightarrow>
     (case Kmm_CopyKubeCa E tr1 of
        (Some e, tr2) \<Rightarrow> (Returns (Some e), tr2)
      | (None, tr2) \<Rightarrow>
     (case Kubeadm_WriteManifests E tr2 of
        (Some e, tr3) \<Rightarrow> (Returns (Some e), tr3)
      | (None, tr3) \<Rightarrow>
     (case electionLoop fuel E k tr3 of
        (LoopReturn e, tr4) \<Rightarrow> (Returns (Some e), tr4)
      | (LoopOutOfFuel, tr4) \<Rightarrow> (OutOfFuel, tr4)
      | (LoopBreak, tr4) \<Rightarrow>
          if \<not> ExitOnCompletion k then keepAlive fuel tr4 else (Returns None, tr4)))))"

section \<open>Parsing extra arguments\<close>

text \<open>
  \<open>strings.Split(s, ",")\<close> for a one-byte separator: the pieces between the separators,
  empty ones included; one piece for a string without separator.
\<close>

fun splitAux :: "char \<Rightarrow> string \<Rightarrow> string \<Rightarrow> string list" where
  "splitAux sep cur [] = [rev cur]"
| "splitAux sep cur (c # cs) =
     (if c = sep then rev cur # splitAux sep [] cs else splitAux sep (c # cur) cs)"

definition Split :: "string \<Rightarrow> char \<Rightarrow> string list" where
  "Split s sep = splitAux sep [] s"

text \<open>
  \<open>strings.FieldsFunc(s, f)\<close>: the maximal runs of characters that do not satisfy \<open>f\<close>.
  The second loop of the library function, with \<open>fieldStart\<close> as the field read so far
  (\<open>None\<close> for -1).  The library walks runes; \<open>f\<close> below holds of two ASCII characters
  only, which never occur inside a multi-byte sequence, so walking bytes gives the same
  fields.
\<close>

fun fieldsAux :: "(char \<Rightarrow> bool) \<Rightarrow> string option \<Rightarrow> string \<Rightarrow> string list" where
  "fieldsAux f None [] = []"
| "fieldsAux f (Some cur) [] = [rev cur]"
| "fieldsAux f None (c # cs) =
     (if f c then fieldsAux f None cs else fieldsAux f (Some [c]) cs)"
| "fieldsAux f (Some cur) (c # cs) =
     (if f c then rev cur # fieldsAux f None cs else fieldsAux f (Some (c # cur)) cs)"

definition FieldsFunc :: "string \<Rightarrow> (char \<Rightarrow> bool) \<Rightarrow> string list" where
  "FieldsFunc s f = fieldsAux f None s"

text \<open>\<open>func stringToMap(args string) map[string]string\<close>: the loop body, then the loop.\<close>

definition stringToMap_f :: "char \<Rightarrow> bool" where
  "stringToMap_f c = (c = CHR ''='' \<or> c = CHR '' '')"

definition stringToMap_body :: "(string \<rightharpoonup> string) \<Rightarrow> string \<Rightarrow> (string \<rightharpoonup> string)" where
  "stringToMap_body argsMap arg =
     (let argItemAry = FieldsFunc arg stringToMap_f;
          argsMap1 = (if length argItemAry = 2
                      then argsMap(argItemAry ! 0 \<mapsto> argItemAry ! 1) else argsMap);
          argsMap2 = (if length argItemAry = 1
                      then argsMap1(argItemAry ! 0 \<mapsto> []) else argsMap1)
      in argsMap2)"

definition stringToMap :: "string \<Rightarrow> (string \<rightharpoonup> string)" where
  "stringToMap args = foldl stringToMap_body Map.empty (Split args CHR '','')"

section \<open>Classifying events, and environments to run the model on\<close>

text \<open>The calls that touch the distributed store.\<close>

fun isStore :: "event \<Rightarrow> bool" where
  "isStore (EvGet key r) = True"
| "isStore (EvGetOrCreateLock key ttl r) = True"
| "isStore (EvPutTx key v r) = True"
| "isStore (EvDelete key r) = True"
| "isStore _ = False"

fun isWriteFile :: "event \<Rightarrow> bool" where
  "isWriteFile (EvWriteFile p c m r) = True"
| "isWriteFile _ = False"

text \<open>
  \<open>env0\<close>: an empty store that grants the lock and accepts every write, a disk that
  holds the service-account keys and a front-proxy CA, and a toolchain that succeeds.
\<close>

definition env0 :: env where
  "env0 =
     \<lparr> UpdateCloudCfg_res = (\<lambda>tr. None),
       CopyKubeCa_res = (\<lambda>tr. None),
       WriteManifests_res = (\<lambda>tr. None),
       Get_res = (\<lambda>tr key. Inl ErrKeyMissing),
       GetOrCreateLock_res = (\<lambda>tr key ttl. Inr True),
       PutTx_res = (\<lambda>tr key v. None),
       Delete_res = (\<lambda>tr key. None),
       CreatePKI_res = (\<lambda>tr. None),
       CreateKubeConfig_res = (\<lambda>tr. None),
       CreateAndStartKubelet_res = (\<lambda>tr master. None),
       Addons_res = (\<lambda>tr. None),
       InstallNetwork_res = (\<lambda>tr. None),
       TokensDeploy_res = (\<lambda>tr. None),
       UpdateMasterRoleLabelsAndTaints_res = (\<lambda>tr. None),
       TryLoadKeyFromDisk_res = (\<lambda>tr dir name. Inr ''sa-key''),
       TryLoadPublicKeyFromDisk_res = (\<lambda>tr dir name. Inr ''sa-pub''),
       TryLoadCertAndKeyFromDisk_res =
         (\<lambda>tr dir name. (Some \<lparr> IsCA = True, Raw = ''fp-ca'' \<rparr>, Some ''fp-key'', None)),
       WriteFile_res = (\<lambda>tr path content perm. None),
       EncodePublicKeyPEM = (\<lambda>k. ''PUBLIC KEY '' @ k),
       EncodePrivateKeyPEM = (\<lambda>k. ''RSA PRIVATE KEY '' @ k),
       EncodeCertPEM = (\<lambda>c. ''CERTIFICATE '' @ Raw c) \<rparr>"

text \<open>A store whose every delete fails.\<close>

definition envDeleteFails :: env where
  "envDeleteFails = env0\<lparr> Delete_res := (\<lambda>tr key. Some (Err ''etcd: delete failed'')) \<rparr>"

definition cfg0 :: Config where
  "cfg0 =
     \<lparr> KubePersistentCaCert = ''/data/ca/kube-ca.pem'',
       KubePersistentCaKey = ''/data/ca/kube-ca-key.pem'',
       ClusterName = ''cluster'',
       NetworkProvider = ''flannel'',
       MasterBackOffTime = 5 * Second,
       ExitOnCompletion = True,
       KubeletExtraArgs = [],
       NodeLabels = Map.empty,
       NodeTaints = Map.empty \<rparr>"

text \<open>
  A store without the asset key whose lock is held by a competitor, and which becomes
  unreachable after the first round.
\<close>

definition envContendThenFail :: env where
  "envContendThenFail =
     env0\<lparr> Get_res := (\<lambda>tr key. if length tr < 4 then Inl ErrKeyMissing
                                   else Inl (Err ''etcd: unreachable'')),
            GetOrCreateLock_res := (\<lambda>tr key ttl. Inr False) \<rparr>"

text \<open>
  A primary whose last step (the bootstrap tokens) fails, against a store whose delete
  fails as well; and the events of its run.
\<close>

definition envTokensFail :: env where
  "envTokensFail =
     env0\<lparr> TokensDeploy_res := (\<lambda>tr. Some (Err ''tokens: deploy failed'')),
            Delete_res := (\<lambda>tr key. Some (Err ''etcd: delete failed'')) \<rparr>"

definition tokensFailEvents :: "event list" where
  "tokensFailEvents =
     [EvUpdateCloudCfg None, EvCopyKubeCa None, EvWriteManifests None,
      EvGet assetKey (Inl ErrKeyMissing),
      EvGetOrCreateLock assetLockKey defaultLockTTL (Inr True),
      EvCreatePKI None,
      EvTryLoadKeyFromDisk PkiDir ServiceAccountKeyBaseName (Inr ''sa-key''),
      EvTryLoadPublicKeyFromDisk PkiDir ServiceAccountKeyBaseName (Inr ''sa-pub''),
      EvTryLoadCertAndKeyFromDisk PkiDir FrontProxyCACertAndKeyBaseName
        (Some \<lparr> IsCA = True, Raw = ''fp-ca'' \<rparr>, Some ''fp-key'', None),
      EvCreateKubeConfig None,
      EvCreateAndStartKubelet True None,
      EvAddons None,
      EvInstallNetwork None,
      EvTokensDeploy (Some (Err ''tokens: deploy failed'')),
      EvDelete assetLockKey (Some (Err ''etcd: delete failed''))]"

text \<open>
  A store that already holds a (small) asset record; the bundle and the events of a
  successful primary run on \<open>env0\<close>; the tail of a successful secondary run.
\<close>

definition payload0 :: string where
  "payload0 = ''{'' @ [dq] @ ''SaPub'' @ [dq] @ '':'' @ [dq] @ ''k'' @ [dq] @ ''}''"

definition envPresent :: env where
  "envPresent = env0\<lparr> Get_res := (\<lambda>tr key. Inr payload0) \<rparr>"

definition bundle0 :: SharedAssets where
  "bundle0 =
     \<lparr> FrontProxyCa = ''CERTIFICATE fp-ca'',
       FrontProxyCaKey = ''RSA PRIVATE KEY fp-key'',
       SaPub = ''PUBLIC KEY sa-pub'',
       SaKey = ''RSA PRIVATE KEY sa-key'' \<rparr>"

definition primaryEvents :: "event list" where
  "primaryEvents =
     [EvUpdateCloudCfg None, EvCopyKubeCa None, EvWriteManifests None,
      EvGet assetKey (Inl ErrKeyMissing),
      EvGetOrCreateLock assetLockKey defaultLockTTL (Inr True),
      EvCreatePKI None,
      EvTryLoadKeyFromDisk PkiDir ServiceAccountKeyBaseName (Inr ''sa-key''),
      EvTryLoadPublicKeyFromDisk PkiDir ServiceAccountKeyBaseName (Inr ''sa-pub''),
      EvTryLoadCertAndKeyFromDisk PkiDir FrontProxyCACertAndKeyBaseName
        (Some \<lparr> IsCA = True, Raw = ''fp-ca'' \<rparr>, Some ''fp-key'', None),
      EvCreateKubeConfig None,
      EvCreateAndStartKubelet True None,
      EvAddons None,
      EvInstallNetwork None,
      EvTokensDeploy None]"

definition secondaryEvents :: "event list" where
  "secondaryEvents =
     [EvWriteFile (PkiDir @ ''/'' @ ServiceAccountPrivateKeyName) [] 384 None,
      EvWriteFile (PkiDir @ ''/'' @ FrontProxyCACertName) [] 420 None,
      EvWriteFile (PkiDir @ ''/'' @ FrontProxyCAKeyName) [] 384 None,
      EvCreatePKI None,
      EvCreateKubeConfig None,
      EvCreateAndStartKubelet True None,
      EvUpdateMasterRoleLabelsAndTaints None]"

text \<open>
  A disk whose front-proxy certificate is not a CA, with the events of \<open>CreatePKI\<close> and
  of the load on it; and a store whose asset record is cut off after its first byte.
\<close>

definition envNotCA :: env where
  "envNotCA =
     env0\<lparr> TryLoadCertAndKeyFromDisk_res :=
              (\<lambda>tr dir name. (Some \<lparr> IsCA = False, Raw = ''fp-ca'' \<rparr>, Some ''fp-key'', None)) \<rparr>"

definition notCAEvents :: "event list" where
  "notCAEvents =
     [EvCreatePKI None,
      EvTryLoadKeyFromDisk PkiDir ServiceAccountKeyBaseName (Inr ''sa-key''),
      EvTryLoadPublicKeyFromDisk PkiDir ServiceAccountKeyBaseName (Inr ''sa-pub''),
      EvTryLoadCertAndKeyFromDisk PkiDir FrontProxyCACertAndKeyBaseName
        (Some \<lparr> IsCA = False, Raw = ''fp-ca'' \<rparr>, Some ''fp-key'', None)]"

definition envCorrupt :: env where
  "envCorrupt = env0\<lparr> Get_res := (\<lambda>tr key. Inr ''{'') \<rparr>"

text \<open>A store without the asset key whose lock is held by a competitor.\<close>

definition envContended :: env where
  "envContended = env0\<lparr> GetOrCreateLock_res := (\<lambda>tr key ttl. Inr False) \<rparr>"

text \<open>The long-running mode: \<open>ExitOnCompletion\<close> unset.\<close>

definition cfgBlock :: Config where
  "cfgBlock = cfg0\<lparr> ExitOnCompletion := False \<rparr>"

text \<open>
  The description of \<open>stringToMap\<close> to compare the code with, in the claim's words and
  without the library functions.  \<open>cut f s\<close> cuts \<open>s\<close> at every character that satisfies
  \<open>f\<close>: the pieces between those characters, empty ones included.  \<open>weave\<close> puts pieces
  and separating characters together again, in turn.  The fields of an item are its
  non-empty pieces; \<open>contribution\<close> is what an item adds to the dictionary, read off the
  number of its fields; \<open>stringToMap_spec\<close> is the dictionary of all contributions, that
  of a later item overriding that of an earlier one.
\<close>

fun cut :: "(char \<Rightarrow> bool) \<Rightarrow> string \<Rightarrow> string list" where
  "cut f [] = [[]]"
| "cut f (c # cs) =
     (if f c then [] # cut f cs
      else (case cut f cs of [] \<Rightarrow> [[c]] | p # ps \<Rightarrow> (c # p) # ps))"

fun weave :: "string list \<Rightarrow> string \<Rightarrow> string" where
  "weave [] seps = []"
| "weave (p # ps) [] = p"
| "weave (p # ps) (c # cs) = p @ c # weave ps cs"

definition fields :: "string \<Rightarrow> string list" where
  "fields item = filter (\<lambda>p. p \<noteq> []) (cut (\<lambda>c. c = CHR ''='' \<or> c = CHR '' '') item)"

definition contribution :: "string list \<Rightarrow> (string \<times> string) option" where
  "contribution fs = (case fs of [k] \<Rightarrow> Some (k, []) | [k, v] \<Rightarrow> Some (k, v) | _ \<Rightarrow> None)"

definition stringToMap_spec :: "string \<Rightarrow> (string \<rightharpoonup> string)" where
  "stringToMap_spec args =
     map_of (rev (List.map_filter (\<lambda>item. contribution (fields item))
                    (cut (\<lambda>c. c = CHR '','') args)))"

text \<open>A store that refuses the publication, and whose delete fails as well.\<close>

definition envPutFails :: env where
  "envPutFails =
     env0\<lparr> PutTx_res := (\<lambda>tr key v. Some (Err ''etcd: key exists'')),
            Delete_res := (\<lambda>tr key. Some (Err ''etcd: delete failed'')) \<rparr>"

section \<open>Failure cleanup: what it deletes and what it returns\<close>

lemma assetKey_neq_assetLockKey: "assetKey \<noteq> assetLockKey"
  by (simp add: assetKey_def assetLockKey_def)

text \<open>
  C9.  For every call \<open>CleanUp(releaseLock, deleteAssets)\<close>: when \<open>releaseLock\<close> is true and
  deleting the lock key fails, \<open>CleanUp\<close> returns that error at once, and the only store
  call made is the delete of the lock key, so the asset key (a different key) is not
  deleted, whatever \<open>deleteAssets\<close> is; when both flags are false, \<open>CleanUp\<close> makes no
  store call and returns nil.
\<close>

theorem CleanUp_lock_failure_and_noop:
  "(Delete_res E tr assetLockKey = Some e \<longrightarrow>
      CleanUp E True deleteAssets tr = (Some e, tr @ [EvDelete assetLockKey (Some e)])
      \<and> assetLockKey \<noteq> assetKey)
   \<and> CleanUp E False False tr = (None, tr)"
  using assetKey_neq_assetLockKey by (auto simp: CleanUp_def Etcd_Delete_def Let_def)

theorem CleanUp_lock_failure_and_noop_witness:
  "Delete_res envDeleteFails [] assetLockKey = Some (Err ''etcd: delete failed'')
   \<and> CleanUp envDeleteFails True True [] =
       (Some (Err ''etcd: delete failed''), [EvDelete assetLockKey (Some (Err ''etcd: delete failed''))])
   \<and> CleanUp envDeleteFails False False [] = (None, [])"
  using CleanUp_lock_failure_and_noop
          [of envDeleteFails "[]" "Err ''etcd: delete failed''" True]
  by (simp add: envDeleteFails_def env0_def)

section \<open>How a run unfolds\<close>

text \<open>The definitions of the calls, for unfolding.\<close>

lemmas call_defs =
  Etcd_Get_def Etcd_GetOrCreateLock_def Etcd_PutTx_def Etcd_Delete_def time_Sleep_def
  Kmm_UpdateCloudCfg_def Kmm_CopyKubeCa_def Kmm_InstallNetwork_def Kmm_TokensDeploy_def
  Kmm_CreateAndStartKubelet_def Kubeadm_WriteManifests_def Kubeadm_CreatePKI_def
  Kubeadm_CreateKubeConfig_def Kubeadm_Addons_def Kubeadm_UpdateMasterRoleLabelsAndTaints_def
  pkiutil_TryLoadKeyFromDisk_def pkiutil_TryLoadPublicKeyFromDisk_def
  pkiutil_TryLoadCertAndKeyFromDisk_def ioutil_WriteFile_def Let_def

lemma LoadAndSerializeAssets_history:
  "\<exists>evs. snd (LoadAndSerializeAssets E tr) = tr @ evs \<and> (\<forall>ev\<in>set evs. \<not> isStore ev \<and> \<not> isWriteFile ev)"
  by (auto simp: LoadAndSerializeAssets_def call_defs split: prod.splits sum.splits option.splits)

lemma BootstrapOnce_history:
  "\<exists>evs. snd (BootstrapOnce E tr) = tr @ evs \<and> (\<forall>ev\<in>set evs. \<not> isStore ev \<and> \<not> isWriteFile ev)"
proof -
  obtain evs where L: "snd (LoadAndSerializeAssets E (tr @ [EvCreatePKI None])) = (tr @ [EvCreatePKI None]) @ evs"
    and P: "\<forall>ev\<in>set evs. \<not> isStore ev \<and> \<not> isWriteFile ev"
    using LoadAndSerializeAssets_history by blast
  show ?thesis
    using L P
    by (cases "LoadAndSerializeAssets E (tr @ [EvCreatePKI None])")
       (auto simp: BootstrapOnce_def call_defs split: prod.splits option.splits)
qed

lemma SaveAssets_history:
  "\<exists>evs. snd (SaveAssets E a tr) = tr @ evs \<and> (\<forall>ev\<in>set evs. \<not> isStore ev)"
  by (auto simp: SaveAssets_def call_defs split: prod.splits option.splits)

lemma BootstrapSecondaryMaster_history:
  "\<exists>evs. snd (BootstrapSecondaryMaster E a tr) = tr @ evs \<and> (\<forall>ev\<in>set evs. \<not> isStore ev)"
proof -
  obtain evs where L: "snd (SaveAssets E a tr) = tr @ evs"
    and P: "\<forall>ev\<in>set evs. \<not> isStore ev"
    using SaveAssets_history by blast
  show ?thesis
    using L P
    by (cases "SaveAssets E a tr")
       (auto simp: BootstrapSecondaryMaster_def call_defs split: prod.splits option.splits)
qed


lemma CleanUp_release_history:
  "snd (CleanUp E True False tr) = tr @ [EvDelete assetLockKey (Delete_res E tr assetLockKey)]"
  by (simp add: CleanUp_def Etcd_Delete_def Let_def split: option.splits)

lemma electionLoop_iteration:
  fixes E k tr n
  defines "g \<equiv> EvGet assetKey (Get_res E tr assetKey)"
  defines "l \<equiv> EvGetOrCreateLock assetLockKey defaultLockTTL
                  (GetOrCreateLock_res E (tr @ [g]) assetLockKey defaultLockTTL)"
  obtains
    (get_error) e where "Get_res E tr assetKey = Inl e" "e \<noteq> ErrKeyMissing"
      "electionLoop (Suc n) E k tr = (LoopReturn e, tr @ [g])"
  | (lock_error) e where "Get_res E tr assetKey = Inl ErrKeyMissing"
      "GetOrCreateLock_res E (tr @ [g]) assetLockKey defaultLockTTL = Inl e"
      "electionLoop (Suc n) E k tr = (LoopReturn e, tr @ [g, l])"
  | (contention) "Get_res E tr assetKey = Inl ErrKeyMissing"
      "GetOrCreateLock_res E (tr @ [g]) assetLockKey defaultLockTTL = Inr False"
      "electionLoop (Suc n) E k tr =
         electionLoop n E k (tr @ [g, l, EvSleep (MasterBackOffTime k)])"
  | (primary_fails) e a evs where "Get_res E tr assetKey = Inl ErrKeyMissing"
      "GetOrCreateLock_res E (tr @ [g]) assetLockKey defaultLockTTL = Inr True"
      "BootstrapOnce E (tr @ [g, l]) = ((a, Some e), tr @ [g, l] @ evs)"
      "\<forall>ev\<in>set evs. \<not> isStore ev \<and> \<not> isWriteFile ev"
      "electionLoop (Suc n) E k tr =
         (LoopReturn e, tr @ [g, l] @ evs
            @ [EvDelete assetLockKey (Delete_res E (tr @ [g, l] @ evs) assetLockKey)])"
  | (publish_fails) e a evs where "Get_res E tr assetKey = Inl ErrKeyMissing"
      "GetOrCreateLock_res E (tr @ [g]) assetLockKey defaultLockTTL = Inr True"
      "BootstrapOnce E (tr @ [g, l]) = ((a, None), tr @ [g, l] @ evs)"
      "\<forall>ev\<in>set evs. \<not> isStore ev \<and> \<not> isWriteFile ev"
      "PutTx_res E (tr @ [g, l] @ evs) assetKey a = Some e"
      "electionLoop (Suc n) E k tr =
         (LoopReturn e, tr @ [g, l] @ evs @ [EvPutTx assetKey a (Some e)]
            @ [EvDelete assetLockKey
                 (Delete_res E (tr @ [g, l] @ evs @ [EvPutTx assetKey a (Some e)]) assetLockKey)])"
  | (published) a evs where "Get_res E tr assetKey = Inl ErrKeyMissing"
      "GetOrCreateLock_res E (tr @ [g]) assetLockKey defaultLockTTL = Inr True"
      "BootstrapOnce E (tr @ [g, l]) = ((a, None), tr @ [g, l] @ evs)"
      "\<forall>ev\<in>set evs. \<not> isStore ev \<and> \<not> isWriteFile ev"
      "PutTx_res E (tr @ [g, l] @ evs) assetKey a = None"
      "electionLoop (Suc n) E k tr = (LoopBreak, tr @ [g, l] @ evs @ [EvPutTx assetKey a None])"
  | (secondary_fails) e a evs where "Get_res E tr assetKey = Inr a"
      "BootstrapSecondaryMaster E a (tr @ [g]) = (Some e, tr @ [g] @ evs)"
      "\<forall>ev\<in>set evs. \<not> isStore ev"
      "electionLoop (Suc n) E k tr = (LoopReturn e, tr @ [g] @ evs)"
  | (secondary_done) a evs where "Get_res E tr assetKey = Inr a"
      "BootstrapSecondaryMaster E a (tr @ [g]) = (None, tr @ [g] @ evs)"
      "\<forall>ev\<in>set evs. \<not> isStore ev"
      "electionLoop (Suc n) E k tr = (LoopBreak, tr @ [g] @ evs)"
proof (cases "Get_res E tr assetKey")
  case (Inl e)
  show ?thesis
  proof (cases "e = ErrKeyMissing")
    case False
    with Inl show ?thesis
      by (intro get_error[where e=e]) (simp_all add: Let_def g_def Etcd_Get_def)
  next
    case True
    note miss = Inl[unfolded True]
    show ?thesis
    proof (cases "GetOrCreateLock_res E (tr @ [g]) assetLockKey defaultLockTTL")
      case (Inl e2)
      with miss show ?thesis
        by (intro lock_error[where e=e2])
           (simp_all add: Let_def g_def l_def Etcd_Get_def Etcd_GetOrCreateLock_def)
    next
      case (Inr mylock)
      show ?thesis
      proof (cases mylock)
        case False
        with miss Inr show ?thesis
          by (intro contention)
             (simp_all add: Let_def g_def l_def Etcd_Get_def Etcd_GetOrCreateLock_def time_Sleep_def)
      next
        case True
        obtain evs where B: "snd (BootstrapOnce E (tr @ [g, l])) = (tr @ [g, l]) @ evs"
          and P: "\<forall>ev\<in>set evs. \<not> isStore ev \<and> \<not> isWriteFile ev"
          using BootstrapOnce_history by blast
        obtain a err where R: "BootstrapOnce E (tr @ [g, l]) = ((a, err), tr @ [g, l] @ evs)"
          using B by (cases "BootstrapOnce E (tr @ [g, l])") auto
        have L: "Etcd_GetOrCreateLock E assetLockKey defaultLockTTL (tr @ [g]) = (Inr True, tr @ [g, l])"
          using Inr True by (simp add: Let_def Etcd_GetOrCreateLock_def l_def)
        have G: "Etcd_Get E assetKey tr = (Inl ErrKeyMissing, tr @ [g])"
          using miss by (simp add: Let_def Etcd_Get_def g_def)
        show ?thesis
        proof (cases err)
          case (Some e3)
          show ?thesis
            using miss Inr True R P Some G L
            by (intro primary_fails[where e=e3 and a=a and evs=evs])
               (simp_all add: Let_def CleanUp_release_history)
        next
          case None
          show ?thesis
          proof (cases "PutTx_res E (tr @ [g, l] @ evs) assetKey a")
            case (Some e4)
            show ?thesis
              using miss Inr True R P None Some G L
              by (intro publish_fails[where e=e4 and a=a and evs=evs])
                 (simp_all add: Let_def CleanUp_release_history Etcd_PutTx_def)
          next
            case N2: None
            show ?thesis
              using miss Inr True R P None N2 G L
              by (intro published[where a=a and evs=evs])
                 (simp_all add: Let_def Etcd_PutTx_def)
          qed
        qed
      qed
    qed
  qed
next
  case (Inr a)
  obtain evs where B: "snd (BootstrapSecondaryMaster E a (tr @ [g])) = (tr @ [g]) @ evs"
    and P: "\<forall>ev\<in>set evs. \<not> isStore ev"
    using BootstrapSecondaryMaster_history by blast
  obtain err where R: "BootstrapSecondaryMaster E a (tr @ [g]) = (err, tr @ [g] @ evs)"
    using B by (cases "BootstrapSecondaryMaster E a (tr @ [g])") auto
  have G: "Etcd_Get E assetKey tr = (Inr a, tr @ [g])"
    using Inr by (simp add: Let_def Etcd_Get_def g_def)
  show ?thesis
  proof (cases err)
    case None
    with Inr R P G show ?thesis by (intro secondary_done[where a=a and evs=evs]) (simp_all add: Let_def)
  next
    case (Some e)
    with Inr R P G show ?thesis by (intro secondary_fails[where e=e and a=a and evs=evs]) (simp_all add: Let_def)
  qed
qed


declare electionLoop.simps(2) [simp del]

lemma electionLoop_extends: "\<exists>new. snd (electionLoop n E k tr) = tr @ new"
proof (induction n arbitrary: tr)
  case 0
  show ?case by simp
next
  case (Suc n)
  show ?case
  proof (cases rule: electionLoop_iteration[where E=E and tr=tr and k=k and n=n])
    case contention
    then show ?thesis using Suc[of "tr @ [EvGet assetKey (Get_res E tr assetKey),
        EvGetOrCreateLock assetLockKey defaultLockTTL
          (GetOrCreateLock_res E (tr @ [EvGet assetKey (Get_res E tr assetKey)]) assetLockKey defaultLockTTL),
        EvSleep (MasterBackOffTime k)]"]
      by auto
  qed auto
qed

lemma head_only: "a # rest = xs @ w # ys \<Longrightarrow> w \<notin> set rest \<Longrightarrow> xs = [] \<and> a = w \<and> ys = rest"
  by (cases xs) auto

lemma peel: "a # rest = xs @ w # ys \<Longrightarrow> a \<noteq> w \<Longrightarrow> \<exists>xs'. xs = a # xs' \<and> rest = xs' @ w # ys"
  by (cases xs) auto

lemma store_notin: "\<forall>ev\<in>set evs. \<not> isStore ev \<Longrightarrow> isStore w \<Longrightarrow> w \<notin> set evs"
  by auto

lemma store_notin2:
  "\<forall>ev\<in>set evs. \<not> isStore ev \<and> \<not> isWriteFile ev \<Longrightarrow> isStore w \<Longrightarrow> w \<notin> set evs"
  by auto

lemma electionLoop_get_events:
  "electionLoop n E k tr = (res, tr @ new) \<Longrightarrow> new = xs @ EvGet key g # ys \<Longrightarrow>
     key = assetKey
     \<and> (g = Inl ErrKeyMissing \<longrightarrow> (\<exists>r zs. ys = EvGetOrCreateLock assetLockKey defaultLockTTL r # zs))
     \<and> (\<forall>e. g = Inl e \<and> e \<noteq> ErrKeyMissing \<longrightarrow> ys = [] \<and> res = LoopReturn e)"
proof (induction n arbitrary: tr new xs)
  case 0
  then show ?case by simp
next
  case (Suc n)
  let ?g = "EvGet assetKey (Get_res E tr assetKey)"
  let ?l = "EvGetOrCreateLock assetLockKey defaultLockTTL
              (GetOrCreateLock_res E (tr @ [?g]) assetLockKey defaultLockTTL)"
  let ?s = "EvSleep (MasterBackOffTime k)"
  let ?w = "EvGet key g"
  note run = Suc.prems(1) and pos = Suc.prems(2)
  show ?case
  proof (cases rule: electionLoop_iteration[where E=E and tr=tr and k=k and n=n])
    case (get_error e)
    from run get_error(3) pos have eq: "?g # [] = xs @ ?w # ys" and r: "res = LoopReturn e" by auto
    from head_only[OF eq] get_error(1,2) r show ?thesis by auto
  next
    case (lock_error e)
    from run lock_error(3) pos have eq: "?g # [?l] = xs @ ?w # ys" by auto
    from head_only[OF eq] lock_error(1) show ?thesis by auto
  next
    case contention
    obtain new' where N: "electionLoop n E k (tr @ [?g, ?l, ?s]) = (res, (tr @ [?g, ?l, ?s]) @ new')"
      using electionLoop_extends[of n E k "tr @ [?g, ?l, ?s]"] contention(3) run
      by (cases "electionLoop n E k (tr @ [?g, ?l, ?s])") auto
    with contention(3) run pos have eq: "?g # ?l # ?s # new' = xs @ ?w # ys" by auto
    show ?thesis
    proof (cases xs)
      case Nil
      with eq contention(1) show ?thesis by auto
    next
      case (Cons a xs1)
      with eq have e1: "?l # ?s # new' = xs1 @ ?w # ys" by auto
      have "\<exists>xs2. xs1 = ?l # xs2 \<and> ?s # new' = xs2 @ ?w # ys"
        by (rule peel[OF e1]) simp
      then obtain xs2 where e2: "?s # new' = xs2 @ ?w # ys" by blast
      have "\<exists>xs3. xs2 = ?s # xs3 \<and> new' = xs3 @ ?w # ys"
        by (rule peel[OF e2]) simp
      then obtain xs3 where e3: "new' = xs3 @ ?w # ys" by blast
      from Suc.IH[OF N e3] show ?thesis .
    qed
  next
    case (primary_fails e a evs)
    let ?rest = "?l # evs @ [EvDelete assetLockKey (Delete_res E (tr @ [?g, ?l] @ evs) assetLockKey)]"
    from run primary_fails(5) pos have eq: "?g # ?rest = xs @ ?w # ys" by auto
    have "?w \<notin> set ?rest" using store_notin2[OF primary_fails(4), of ?w] by simp
    from head_only[OF eq this] primary_fails(1) show ?thesis by auto
  next
    case (publish_fails e a evs)
    let ?rest = "?l # evs @ [EvPutTx assetKey a (Some e)] @ [EvDelete assetLockKey
                 (Delete_res E (tr @ [?g, ?l] @ evs @ [EvPutTx assetKey a (Some e)]) assetLockKey)]"
    from run publish_fails(6) pos have eq: "?g # ?rest = xs @ ?w # ys" by auto
    have "?w \<notin> set ?rest" using store_notin2[OF publish_fails(4), of ?w] by simp
    from head_only[OF eq this] publish_fails(1) show ?thesis by auto
  next
    case (published a evs)
    let ?rest = "?l # evs @ [EvPutTx assetKey a None]"
    from run published(6) pos have eq: "?g # ?rest = xs @ ?w # ys" by auto
    have "?w \<notin> set ?rest" using store_notin2[OF published(4), of ?w] by simp
    from head_only[OF eq this] published(1) show ?thesis by auto
  next
    case (secondary_fails e a evs)
    from run secondary_fails(4) pos have eq: "?g # evs = xs @ ?w # ys" by auto
    have "?w \<notin> set evs" using store_notin[OF secondary_fails(3), of ?w] by simp
    from head_only[OF eq this] secondary_fails(1) show ?thesis by auto
  next
    case (secondary_done a evs)
    from run secondary_done(4) pos have eq: "?g # evs = xs @ ?w # ys" by auto
    have "?w \<notin> set evs" using store_notin[OF secondary_done(3), of ?w] by simp
    from head_only[OF eq this] secondary_done(1) show ?thesis by auto
  qed
qed


lemma keepAlive_history: "keepAlive n tr = (OutOfFuel, tr @ replicate n EvSpin)"
  by (induction n arbitrary: tr) (simp_all add: replicate_app_Cons_same)

lemma split_skip:
  "pre @ l = xs @ w # ys \<Longrightarrow> w \<notin> set pre \<Longrightarrow> \<exists>xs'. xs = pre @ xs' \<and> l = xs' @ w # ys"
proof (induction pre arbitrary: xs)
  case Nil
  then show ?case by simp
next
  case (Cons a pre)
  from Cons.prems obtain xs1 where "xs = a # xs1" "pre @ l = xs1 @ w # ys"
    by (cases xs) auto
  with Cons.IH[of xs1] Cons.prems(2) show ?case by auto
qed

lemma split_skip_right:
  "l @ post = xs @ w # ys \<Longrightarrow> w \<notin> set post \<Longrightarrow> \<exists>ys'. l = xs @ w # ys' \<and> ys = ys' @ post"
proof (induction l arbitrary: xs)
  case Nil
  then have "w \<in> set post" by (metis in_set_conv_decomp append_Nil)
  with Nil show ?case by simp
next
  case (Cons a l)
  show ?case
  proof (cases xs)
    case Nil
    with Cons.prems show ?thesis by auto
  next
    case (Cons b xs1)
    with Cons.prems have "l @ post = xs1 @ w # ys" "a = b" by auto
    with Cons.IH[of xs1] Cons.prems(2) Cons show ?thesis by auto
  qed
qed

lemma CreateOrGetSharedAssets_cases:
  fixes E k tr fuel
  defines "pre \<equiv> [EvUpdateCloudCfg None, EvCopyKubeCa None, EvWriteManifests None]"
  obtains
    (preamble_fails) e evs where
      "CreateOrGetSharedAssets fuel E k tr = (Returns (Some e), tr @ evs)"
      "\<forall>ev\<in>set evs. \<not> isStore ev \<and> \<not> isWriteFile ev"
  | (loop_returns) e new where
      "electionLoop fuel E k (tr @ pre) = (LoopReturn e, (tr @ pre) @ new)"
      "CreateOrGetSharedAssets fuel E k tr = (Returns (Some e), tr @ pre @ new)"
  | (loop_starved) new where
      "electionLoop fuel E k (tr @ pre) = (LoopOutOfFuel, (tr @ pre) @ new)"
      "CreateOrGetSharedAssets fuel E k tr = (OutOfFuel, tr @ pre @ new)"
  | (done_exit) new where
      "electionLoop fuel E k (tr @ pre) = (LoopBreak, (tr @ pre) @ new)"
      "ExitOnCompletion k"
      "CreateOrGetSharedAssets fuel E k tr = (Returns None, tr @ pre @ new)"
  | (done_spin) new where
      "electionLoop fuel E k (tr @ pre) = (LoopBreak, (tr @ pre) @ new)"
      "\<not> ExitOnCompletion k"
      "CreateOrGetSharedAssets fuel E k tr = (OutOfFuel, tr @ pre @ new @ replicate fuel EvSpin)"
proof (cases "UpdateCloudCfg_res E tr")
  case (Some e)
  then show ?thesis
    by (intro preamble_fails[where e=e and evs="[EvUpdateCloudCfg (Some e)]"])
       (simp_all add: CreateOrGetSharedAssets_def Kmm_UpdateCloudCfg_def Let_def)
next
  case u: None
  show ?thesis
  proof (cases "CopyKubeCa_res E (tr @ [EvUpdateCloudCfg None])")
    case (Some e)
    with u show ?thesis
      by (intro preamble_fails[where e=e and evs="[EvUpdateCloudCfg None, EvCopyKubeCa (Some e)]"])
         (simp_all add: CreateOrGetSharedAssets_def Kmm_UpdateCloudCfg_def Kmm_CopyKubeCa_def Let_def)
  next
    case c: None
    show ?thesis
    proof (cases "WriteManifests_res E (tr @ [EvUpdateCloudCfg None, EvCopyKubeCa None])")
      case (Some e)
      with u c show ?thesis
        by (intro preamble_fails[where e=e
              and evs="[EvUpdateCloudCfg None, EvCopyKubeCa None, EvWriteManifests (Some e)]"])
           (simp_all add: CreateOrGetSharedAssets_def Kmm_UpdateCloudCfg_def Kmm_CopyKubeCa_def
              Kubeadm_WriteManifests_def Let_def)
    next
      case m: None
      obtain new where X: "snd (electionLoop fuel E k (tr @ pre)) = (tr @ pre) @ new"
        using electionLoop_extends by blast
      have C: "CreateOrGetSharedAssets fuel E k tr =
         (case electionLoop fuel E k (tr @ pre) of
            (LoopReturn e, tr4) \<Rightarrow> (Returns (Some e), tr4)
          | (LoopOutOfFuel, tr4) \<Rightarrow> (OutOfFuel, tr4)
          | (LoopBreak, tr4) \<Rightarrow>
              if \<not> ExitOnCompletion k then keepAlive fuel tr4 else (Returns None, tr4))"
        using u c m
        by (simp add: CreateOrGetSharedAssets_def Kmm_UpdateCloudCfg_def Kmm_CopyKubeCa_def
              Kubeadm_WriteManifests_def Let_def pre_def)
      obtain r where R: "electionLoop fuel E k (tr @ pre) = (r, (tr @ pre) @ new)"
        using X by (cases "electionLoop fuel E k (tr @ pre)") auto
      show ?thesis
      proof (cases r)
        case (LoopReturn e)
        with R C show ?thesis by (intro loop_returns[where e=e and new=new]) simp_all
      next
        case LoopOutOfFuel
        with R C show ?thesis by (intro loop_starved[where new=new]) simp_all
      next
        case LoopBreak
        show ?thesis
        proof (cases "ExitOnCompletion k")
          case True
          with LoopBreak R C show ?thesis by (intro done_exit[where new=new]) simp_all
        next
          case False
          with LoopBreak R C show ?thesis
            by (intro done_spin[where new=new]) (simp_all add: keepAlive_history)
        qed
      qed
    qed
  qed
qed

lemmas run_defs =
  CreateOrGetSharedAssets_def electionLoop.simps BootstrapOnce_def BootstrapSecondaryMaster_def
  LoadAndSerializeAssets_def SaveAssets_def CleanUp_def call_defs

text \<open>The definitions of the JSON decoder, for evaluating it on a given input.\<close>

lemmas json_defs =
  json_Unmarshal_def checkValid_def object_def oapp_def storeMember_def findField_def
  structFields_def beginValue_def isSpace_def isDigit_def endNumber_def after0_def endValue_def
  pushParseState_def beginValueTok_def beginStringTok_def maxNestingDepth_def SyntaxError_def
  UnmarshalTypeError_def phaseError_def upper_def smallLongEss_def kelvin_def hexval_def

section \<open>Terminal and retryable results of the store query\<close>

lemma contend_then_fail_run:
  "CreateOrGetSharedAssets (Suc (Suc 0)) envContendThenFail cfg0 [] =
     (Returns (Some (Err ''etcd: unreachable'')),
      [] @ [EvUpdateCloudCfg None, EvCopyKubeCa None, EvWriteManifests None,
       EvGet assetKey (Inl ErrKeyMissing),
       EvGetOrCreateLock assetLockKey defaultLockTTL (Inr False),
       EvSleep (5 * Second),
       EvGet assetKey (Inl (Err ''etcd: unreachable''))])"
  by (simp add: run_defs envContendThenFail_def env0_def cfg0_def)

text \<open>
  C5.  In every run of \<open>CreateOrGetSharedAssets\<close>, a get is a get of the asset key; a get
  that returns the missing-key condition is followed by the attempt to take the lock (it
  does not end the loop); a get that returns any other error is the last event of the
  run, and that error is what the caller receives: no back-off, no further iteration.
\<close>

theorem get_missing_elects_other_error_returns:
  assumes run: "CreateOrGetSharedAssets fuel E k tr = (out, tr @ new)"
      and pos: "new = xs @ EvGet key g # ys"
  shows "key = assetKey
     \<and> (g = Inl ErrKeyMissing \<longrightarrow>
          (\<exists>r zs. ys = EvGetOrCreateLock assetLockKey defaultLockTTL r # zs))
     \<and> (\<forall>e. g = Inl e \<and> e \<noteq> ErrKeyMissing \<longrightarrow> ys = [] \<and> out = Returns (Some e))"
proof -
  let ?pre = "[EvUpdateCloudCfg None, EvCopyKubeCa None, EvWriteManifests None]"
  let ?w = "EvGet key g"
  have loop: "key = assetKey
     \<and> (g = Inl ErrKeyMissing \<longrightarrow>
          (\<exists>r zs. ys' @ post = EvGetOrCreateLock assetLockKey defaultLockTTL r # zs))
     \<and> (\<forall>e. g = Inl e \<and> e \<noteq> ErrKeyMissing \<longrightarrow> ys' = [] \<and> res = LoopReturn e)"
    if "electionLoop fuel E k (tr @ ?pre) = (res, (tr @ ?pre) @ lnew)" "lnew = xs' @ ?w # ys'"
    for res lnew xs' ys' post
    using electionLoop_get_events[OF that] by auto
  have skip: "\<exists>xs' ys'. lnew = xs' @ ?w # ys' \<and> ys = ys' @ post"
    if "new = ?pre @ lnew @ post" "?w \<notin> set post" for lnew post
  proof -
    from that(1) pos have "?pre @ (lnew @ post) = xs @ ?w # ys" by simp
    from split_skip[OF this] obtain xs' where "lnew @ post = xs' @ ?w # ys" by auto
    from split_skip_right[OF this that(2)] show ?thesis by blast
  qed
  show ?thesis
  proof (cases rule: CreateOrGetSharedAssets_cases[where E=E and k=k and tr=tr and fuel=fuel])
    case (preamble_fails e evs)
    with run pos have "?w \<in> set evs" by auto
    with preamble_fails(2) show ?thesis by auto
  next
    case (loop_returns e lnew)
    with run have n: "new = ?pre @ lnew @ []" and o: "out = Returns (Some e)" by auto
    from skip[OF n] obtain xs' ys' where d: "lnew = xs' @ ?w # ys'" "ys = ys' @ []" by auto
    from loop[OF loop_returns(1) d(1), of "[]"] d(2) o show ?thesis by auto
  next
    case (loop_starved lnew)
    with run have n: "new = ?pre @ lnew @ []" by auto
    from skip[OF n] obtain xs' ys' where d: "lnew = xs' @ ?w # ys'" "ys = ys' @ []" by auto
    from loop[OF loop_starved(1) d(1), of "[]"] d(2) show ?thesis by auto
  next
    case (done_exit lnew)
    with run have n: "new = ?pre @ lnew @ []" by auto
    from skip[OF n] obtain xs' ys' where d: "lnew = xs' @ ?w # ys'" "ys = ys' @ []" by auto
    from loop[OF done_exit(1) d(1), of "[]"] d(2) show ?thesis by auto
  next
    case (done_spin lnew)
    with run have n: "new = ?pre @ lnew @ replicate fuel EvSpin" by auto
    from skip[OF n] obtain xs' ys' where d: "lnew = xs' @ ?w # ys'"
      "ys = ys' @ replicate fuel EvSpin" by auto
    from loop[OF done_spin(1) d(1), of "replicate fuel EvSpin"] d(2) show ?thesis by auto
  qed
qed

theorem get_missing_elects_other_error_returns_witness:
  "CreateOrGetSharedAssets (Suc (Suc 0)) envContendThenFail cfg0 [] =
     (Returns (Some (Err ''etcd: unreachable'')),
      [] @ [EvUpdateCloudCfg None, EvCopyKubeCa None, EvWriteManifests None,
       EvGet assetKey (Inl ErrKeyMissing),
       EvGetOrCreateLock assetLockKey defaultLockTTL (Inr False),
       EvSleep (5 * Second),
       EvGet assetKey (Inl (Err ''etcd: unreachable''))])
   \<and> (\<exists>r zs. [EvGetOrCreateLock assetLockKey defaultLockTTL (Inr False), EvSleep (5 * Second),
                EvGet assetKey (Inl (Err ''etcd: unreachable''))]
              = EvGetOrCreateLock assetLockKey defaultLockTTL r # zs)
   \<and> Returns (Some (Err ''etcd: unreachable'')) = Returns (Some (Err ''etcd: unreachable''))"
  using contend_then_fail_run
    get_missing_elects_other_error_returns[OF contend_then_fail_run,
      of "[EvUpdateCloudCfg None, EvCopyKubeCa None, EvWriteManifests None]"
         assetKey "Inl ErrKeyMissing"
         "[EvGetOrCreateLock assetLockKey defaultLockTTL (Inr False), EvSleep (5 * Second),
           EvGet assetKey (Inl (Err ''etcd: unreachable''))]"]
    get_missing_elects_other_error_returns[OF contend_then_fail_run,
      of "[EvUpdateCloudCfg None, EvCopyKubeCa None, EvWriteManifests None,
           EvGet assetKey (Inl ErrKeyMissing),
           EvGetOrCreateLock assetLockKey defaultLockTTL (Inr False), EvSleep (5 * Second)]"
         assetKey "Inl (Err ''etcd: unreachable'')" "[]"]
  by simp

section \<open>Cleanup when the primary sequence fails\<close>

lemma electionLoop_primary_failure:
  "electionLoop n E k tr = (LoopReturn e, tr @ new) \<Longrightarrow>
   EvGetOrCreateLock assetLockKey defaultLockTTL (Inr True) \<in> set new \<Longrightarrow>
   \<exists>pre. new = pre @ [EvDelete assetLockKey (Delete_res E (tr @ pre) assetLockKey)]
       \<and> (\<forall>key v. EvPutTx key v None \<notin> set new)
       \<and> (\<forall>r. EvDelete assetKey r \<notin> set new)
       \<and> ((\<exists>h a. BootstrapOnce E h = ((a, Some e), tr @ pre))
            \<or> (\<exists>pre' h a. pre = pre' @ [EvPutTx assetKey a (Some e)]
                  \<and> BootstrapOnce E h = ((a, None), tr @ pre')
                  \<and> PutTx_res E (tr @ pre') assetKey a = Some e))"
proof (induction n arbitrary: tr new)
  case 0
  then show ?case by simp
next
  case (Suc n)
  let ?g = "EvGet assetKey (Get_res E tr assetKey)"
  let ?l = "EvGetOrCreateLock assetLockKey defaultLockTTL
              (GetOrCreateLock_res E (tr @ [?g]) assetLockKey defaultLockTTL)"
  let ?s = "EvSleep (MasterBackOffTime k)"
  let ?won = "EvGetOrCreateLock assetLockKey defaultLockTTL (Inr True)"
  note run = Suc.prems(1) and won = Suc.prems(2)
  note K = assetKey_neq_assetLockKey
  show ?case
  proof (cases rule: electionLoop_iteration[where E=E and tr=tr and k=k and n=n])
    case (get_error e')
    with run won show ?thesis by auto
  next
    case (lock_error e')
    with run won show ?thesis by auto
  next
    case contention
    obtain new' where N: "electionLoop n E k (tr @ [?g, ?l, ?s]) = (LoopReturn e, (tr @ [?g, ?l, ?s]) @ new')"
      using electionLoop_extends[of n E k "tr @ [?g, ?l, ?s]"] contention(3) run
      by (cases "electionLoop n E k (tr @ [?g, ?l, ?s])") auto
    with contention(3) run have eq: "new = [?g, ?l, ?s] @ new'" by auto
    with won contention(2) have "?won \<in> set new'" by auto
    from Suc.IH[OF N this] obtain pre where
      P: "new' = pre @ [EvDelete assetLockKey (Delete_res E ((tr @ [?g, ?l, ?s]) @ pre) assetLockKey)]"
         "\<forall>key v. EvPutTx key v None \<notin> set new'"
         "\<forall>r. EvDelete assetKey r \<notin> set new'"
         "(\<exists>h a. BootstrapOnce E h = ((a, Some e), (tr @ [?g, ?l, ?s]) @ pre))
            \<or> (\<exists>pre' h a. pre = pre' @ [EvPutTx assetKey a (Some e)]
                  \<and> BootstrapOnce E h = ((a, None), (tr @ [?g, ?l, ?s]) @ pre')
                  \<and> PutTx_res E ((tr @ [?g, ?l, ?s]) @ pre') assetKey a = Some e)"
      by blast
    let ?pre = "[?g, ?l, ?s] @ pre"
    have 1: "new = ?pre @ [EvDelete assetLockKey (Delete_res E (tr @ ?pre) assetLockKey)]"
      using eq P(1) by simp
    have 2: "\<forall>key v. EvPutTx key v None \<notin> set new" using eq P(2) by simp
    have 3: "\<forall>r. EvDelete assetKey r \<notin> set new" using eq P(3) by simp
    have 4: "(\<exists>h a. BootstrapOnce E h = ((a, Some e), tr @ ?pre))
            \<or> (\<exists>pre' h a. ?pre = pre' @ [EvPutTx assetKey a (Some e)]
                  \<and> BootstrapOnce E h = ((a, None), tr @ pre')
                  \<and> PutTx_res E (tr @ pre') assetKey a = Some e)"
      using P(4)
    proof
      assume "\<exists>h a. BootstrapOnce E h = ((a, Some e), (tr @ [?g, ?l, ?s]) @ pre)"
      then show ?thesis by simp
    next
      assume "\<exists>pre' h a. pre = pre' @ [EvPutTx assetKey a (Some e)]
                  \<and> BootstrapOnce E h = ((a, None), (tr @ [?g, ?l, ?s]) @ pre')
                  \<and> PutTx_res E ((tr @ [?g, ?l, ?s]) @ pre') assetKey a = Some e"
      then obtain pre' h a where Q: "pre = pre' @ [EvPutTx assetKey a (Some e)]"
        "BootstrapOnce E h = ((a, None), (tr @ [?g, ?l, ?s]) @ pre')"
        "PutTx_res E ((tr @ [?g, ?l, ?s]) @ pre') assetKey a = Some e" by blast
      have "?pre = ([?g, ?l, ?s] @ pre') @ [EvPutTx assetKey a (Some e)]
            \<and> BootstrapOnce E h = ((a, None), tr @ ([?g, ?l, ?s] @ pre'))
            \<and> PutTx_res E (tr @ ([?g, ?l, ?s] @ pre')) assetKey a = Some e"
        using Q by simp
      then show ?thesis by blast
    qed
    from 1 2 3 4 show ?thesis by blast
  next
    case (primary_fails e' a evs)
    let ?pre = "[?g, ?l] @ evs"
    from run primary_fails(5) have eq: "new = ?pre @ [EvDelete assetLockKey (Delete_res E (tr @ ?pre) assetLockKey)]"
      and e: "e' = e" by auto
    have 2: "\<forall>key v. EvPutTx key v None \<notin> set new"
      using eq store_notin2[OF primary_fails(4)] by auto
    have 3: "\<forall>r. EvDelete assetKey r \<notin> set new"
      using eq store_notin2[OF primary_fails(4)] K by auto
    have 4: "\<exists>h a. BootstrapOnce E h = ((a, Some e), tr @ ?pre)"
      using primary_fails(3) e by auto
    from eq 2 3 4 show ?thesis by blast
  next
    case (publish_fails e' a evs)
    let ?pre = "([?g, ?l] @ evs) @ [EvPutTx assetKey a (Some e)]"
    from run publish_fails(6) have e: "e' = e" by auto
    from run publish_fails(6) e have eq: "new = ?pre @ [EvDelete assetLockKey (Delete_res E (tr @ ?pre) assetLockKey)]"
      by auto
    have 2: "\<forall>key v. EvPutTx key v None \<notin> set new"
      using eq store_notin2[OF publish_fails(4)] by auto
    have 3: "\<forall>r. EvDelete assetKey r \<notin> set new"
      using eq store_notin2[OF publish_fails(4)] K by auto
    have 4: "?pre = ([?g, ?l] @ evs) @ [EvPutTx assetKey a (Some e)]
                  \<and> BootstrapOnce E (tr @ [?g, ?l]) = ((a, None), tr @ ([?g, ?l] @ evs))
                  \<and> PutTx_res E (tr @ ([?g, ?l] @ evs)) assetKey a = Some e"
      using publish_fails(3,5) e by auto
    from eq 2 3 4 show ?thesis by blast
  next
    case (published a evs)
    with run show ?thesis by auto
  next
    case (secondary_fails e' a evs)
    with run won store_notin[OF secondary_fails(3), of ?won] show ?thesis by auto
  next
    case (secondary_done a evs)
    with run show ?thesis by auto
  qed
qed

text \<open>
  The shape of a run that took the lock and returned an error.
\<close>

lemma failed_run_after_lock_shape:
  assumes run: "CreateOrGetSharedAssets fuel E k tr = (Returns (Some e), tr @ new)"
      and won: "EvGetOrCreateLock assetLockKey defaultLockTTL (Inr True) \<in> set new"
  shows "\<exists>pre. new = pre @ [EvDelete assetLockKey (Delete_res E (tr @ pre) assetLockKey)]
       \<and> (\<forall>key v. EvPutTx key v None \<notin> set new)
       \<and> (\<forall>r. EvDelete assetKey r \<notin> set new)
       \<and> ((\<exists>h a. BootstrapOnce E h = ((a, Some e), tr @ pre))
            \<or> (\<exists>pre' h a. pre = pre' @ [EvPutTx assetKey a (Some e)]
                  \<and> BootstrapOnce E h = ((a, None), tr @ pre')
                  \<and> PutTx_res E (tr @ pre') assetKey a = Some e))"
proof (cases rule: CreateOrGetSharedAssets_cases[where E=E and k=k and tr=tr and fuel=fuel])
  case (preamble_fails e' evs)
  with run won show ?thesis by auto
next
  case (loop_returns e' lnew)
  let ?p = "[EvUpdateCloudCfg None, EvCopyKubeCa None, EvWriteManifests None]"
  from run loop_returns(2) have eq: "new = ?p @ lnew" and e: "e' = e" by auto
  with won have "EvGetOrCreateLock assetLockKey defaultLockTTL (Inr True) \<in> set lnew" by auto
  from electionLoop_primary_failure[OF loop_returns(1)[unfolded e] this] obtain pre where
    P: "lnew = pre @ [EvDelete assetLockKey (Delete_res E ((tr @ ?p) @ pre) assetLockKey)]"
       "\<forall>key v. EvPutTx key v None \<notin> set lnew"
       "\<forall>r. EvDelete assetKey r \<notin> set lnew"
       "(\<exists>h a. BootstrapOnce E h = ((a, Some e), (tr @ ?p) @ pre))
            \<or> (\<exists>pre' h a. pre = pre' @ [EvPutTx assetKey a (Some e)]
                  \<and> BootstrapOnce E h = ((a, None), (tr @ ?p) @ pre')
                  \<and> PutTx_res E ((tr @ ?p) @ pre') assetKey a = Some e)"
    by blast
  let ?pre = "?p @ pre"
  have 1: "new = ?pre @ [EvDelete assetLockKey (Delete_res E (tr @ ?pre) assetLockKey)]"
    using eq P(1) by simp
  have 2: "\<forall>key v. EvPutTx key v None \<notin> set new" using eq P(2) by simp
  have 3: "\<forall>r. EvDelete assetKey r \<notin> set new" using eq P(3) by simp
  have 4: "(\<exists>h a. BootstrapOnce E h = ((a, Some e), tr @ ?pre))
            \<or> (\<exists>pre' h a. ?pre = pre' @ [EvPutTx assetKey a (Some e)]
                  \<and> BootstrapOnce E h = ((a, None), tr @ pre')
                  \<and> PutTx_res E (tr @ pre') assetKey a = Some e)"
    using P(4)
  proof
    assume "\<exists>h a. BootstrapOnce E h = ((a, Some e), (tr @ ?p) @ pre)"
    then show ?thesis by simp
  next
    assume "\<exists>pre' h a. pre = pre' @ [EvPutTx assetKey a (Some e)]
                  \<and> BootstrapOnce E h = ((a, None), (tr @ ?p) @ pre')
                  \<and> PutTx_res E ((tr @ ?p) @ pre') assetKey a = Some e"
    then obtain pre' h a where Q: "pre = pre' @ [EvPutTx assetKey a (Some e)]"
      "BootstrapOnce E h = ((a, None), (tr @ ?p) @ pre')"
      "PutTx_res E ((tr @ ?p) @ pre') assetKey a = Some e" by blast
    have "?pre = (?p @ pre') @ [EvPutTx assetKey a (Some e)]
          \<and> BootstrapOnce E h = ((a, None), tr @ (?p @ pre'))
          \<and> PutTx_res E (tr @ (?p @ pre')) assetKey a = Some e"
      using Q by simp
    then show ?thesis by blast
  qed
  from 1 2 3 4 show ?thesis by blast
next
  case (loop_starved lnew)
  with run show ?thesis by auto
next
  case (done_exit lnew)
  with run show ?thesis by auto
next
  case (done_spin lnew)
  with run show ?thesis by auto
qed

lemma tokens_fail_run:
  "CreateOrGetSharedAssets (Suc 0) envTokensFail cfg0 [] =
     (Returns (Some (Err ''tokens: deploy failed'')), [] @ tokensFailEvents)"
  by (simp add: run_defs envTokensFail_def env0_def cfg0_def tokensFailEvents_def)


lemma mid_in_set: "l = xs @ w # ys \<Longrightarrow> w \<in> set l"
  by simp

section \<open>What comes before the secondary sequence and before publication\<close>

lemma absent: "new = xs @ w # ys \<Longrightarrow> w \<notin> set new \<Longrightarrow> P"
  by simp

lemma wf_notin: "\<forall>ev\<in>set evs. \<not> isStore ev \<and> \<not> isWriteFile ev \<Longrightarrow> isWriteFile w \<Longrightarrow> w \<notin> set evs"
  by auto

lemma electionLoop_order:
  "electionLoop n E k tr = (res, tr @ new) \<Longrightarrow>
     (\<forall>xs w ys. new = xs @ w # ys \<and> isWriteFile w \<longrightarrow>
         (\<exists>zs a ws. xs = zs @ EvGet assetKey (Inr a) # ws))
   \<and> (\<forall>xs key v r ys. new = xs @ EvPutTx key v r # ys \<longrightarrow>
         key = assetKey \<and> (\<exists>h. BootstrapOnce E h = ((v, None), tr @ xs)))"
proof (induction n arbitrary: tr new)
  case 0
  then show ?case by simp
next
  case (Suc n)
  let ?g = "EvGet assetKey (Get_res E tr assetKey)"
  let ?l = "EvGetOrCreateLock assetLockKey defaultLockTTL
              (GetOrCreateLock_res E (tr @ [?g]) assetLockKey defaultLockTTL)"
  let ?s = "EvSleep (MasterBackOffTime k)"
  note run = Suc.prems(1)
  show ?case
  proof (cases rule: electionLoop_iteration[where E=E and tr=tr and k=k and n=n])
    case (get_error e)
    with run have eq: "new = [?g]" by auto
    show ?thesis
    proof (intro conjI allI impI)
      fix xs w ys assume a: "new = xs @ w # ys \<and> isWriteFile w"
      then have w: "isWriteFile w" and d: "new = xs @ w # ys" by simp_all
      have "w \<notin> set new" unfolding eq using w by auto
      from absent[OF d this]
      show "\<exists>zs a ws. xs = zs @ EvGet assetKey (Inr a) # ws" .
    next
      fix xs key v r ys assume a: "new = xs @ EvPutTx key v r # ys"
      have "EvPutTx key v r \<notin> set new" unfolding eq by auto
      from absent[OF a this]
      show "key = assetKey" .
    next
      fix xs key v r ys assume a: "new = xs @ EvPutTx key v r # ys"
      have "EvPutTx key v r \<notin> set new" unfolding eq by auto
      from absent[OF a this]
      show "\<exists>h. BootstrapOnce E h = ((v, None), tr @ xs)" .
    qed
  next
    case (lock_error e)
    with run have eq: "new = [?g, ?l]" by auto
    show ?thesis
    proof (intro conjI allI impI)
      fix xs w ys assume a: "new = xs @ w # ys \<and> isWriteFile w"
      then have w: "isWriteFile w" and d: "new = xs @ w # ys" by simp_all
      have "w \<notin> set new" unfolding eq using w by auto
      from absent[OF d this]
      show "\<exists>zs a ws. xs = zs @ EvGet assetKey (Inr a) # ws" .
    next
      fix xs key v r ys assume a: "new = xs @ EvPutTx key v r # ys"
      have "EvPutTx key v r \<notin> set new" unfolding eq by auto
      from absent[OF a this]
      show "key = assetKey" .
    next
      fix xs key v r ys assume a: "new = xs @ EvPutTx key v r # ys"
      have "EvPutTx key v r \<notin> set new" unfolding eq by auto
      from absent[OF a this]
      show "\<exists>h. BootstrapOnce E h = ((v, None), tr @ xs)" .
    qed
  next
    case contention
    obtain new' where N: "electionLoop n E k (tr @ [?g, ?l, ?s]) = (res, (tr @ [?g, ?l, ?s]) @ new')"
      using electionLoop_extends[of n E k "tr @ [?g, ?l, ?s]"] contention(3) run
      by (cases "electionLoop n E k (tr @ [?g, ?l, ?s])") auto
    with contention(3) run have eq: "new = [?g, ?l, ?s] @ new'" by auto
    from Suc.IH[OF N]
    have I1: "\<And>xs w ys. new' = xs @ w # ys \<Longrightarrow> isWriteFile w \<Longrightarrow>
                 \<exists>zs a ws. xs = zs @ EvGet assetKey (Inr a) # ws"
     and I2: "\<And>xs key v r ys. new' = xs @ EvPutTx key v r # ys \<Longrightarrow>
                 key = assetKey \<and> (\<exists>h. BootstrapOnce E h = ((v, None), (tr @ [?g, ?l, ?s]) @ xs))"
      by blast+
    show ?thesis
    proof (intro conjI allI impI)
      fix xs w ys assume a: "new = xs @ w # ys \<and> isWriteFile w"
      then have w: "isWriteFile w" and d: "new = xs @ w # ys" by simp_all
      have 2: "w \<notin> set [?g, ?l, ?s]" using w by auto
      from split_skip[OF d[unfolded eq] 2] obtain xs' where x: "xs = [?g, ?l, ?s] @ xs'" "new' = xs' @ w # ys" by blast
      from I1[OF x(2) w] obtain zs a' ws where "xs' = zs @ EvGet assetKey (Inr a') # ws" by blast
      with x(1) have "xs = ([?g, ?l, ?s] @ zs) @ EvGet assetKey (Inr a') # ws" by simp
      then show "\<exists>zs a ws. xs = zs @ EvGet assetKey (Inr a) # ws" by blast
    next
      fix xs key v r ys assume a: "new = xs @ EvPutTx key v r # ys"
      have 2: "EvPutTx key v r \<notin> set [?g, ?l, ?s]" by simp
      from split_skip[OF a[unfolded eq] 2] obtain xs' where x: "xs = [?g, ?l, ?s] @ xs'" "new' = xs' @ EvPutTx key v r # ys" by blast
      from I2[OF x(2)] show "key = assetKey" by simp
    next
      fix xs key v r ys assume a: "new = xs @ EvPutTx key v r # ys"
      have 2: "EvPutTx key v r \<notin> set [?g, ?l, ?s]" by simp
      from split_skip[OF a[unfolded eq] 2] obtain xs' where x: "xs = [?g, ?l, ?s] @ xs'" "new' = xs' @ EvPutTx key v r # ys" by blast
      from I2[OF x(2)] obtain h where "BootstrapOnce E h = ((v, None), (tr @ [?g, ?l, ?s]) @ xs')" by blast
      with x(1) show "\<exists>h. BootstrapOnce E h = ((v, None), tr @ xs)" by auto
    qed
  next
    case (primary_fails e a evs)
    let ?d = "EvDelete assetLockKey (Delete_res E (tr @ [?g, ?l] @ evs) assetLockKey)"
    from run primary_fails(5) have eq: "new = [?g, ?l] @ evs @ [?d]" by auto
    show ?thesis
    proof (intro conjI allI impI)
      fix xs w ys assume a: "new = xs @ w # ys \<and> isWriteFile w"
      then have w: "isWriteFile w" and d: "new = xs @ w # ys" by simp_all
      have "w \<notin> set new" unfolding eq using w wf_notin[OF primary_fails(4), of w] by auto
      from absent[OF d this]
      show "\<exists>zs a ws. xs = zs @ EvGet assetKey (Inr a) # ws" .
    next
      fix xs key v r ys assume a: "new = xs @ EvPutTx key v r # ys"
      have "EvPutTx key v r \<notin> set new"
        unfolding eq using store_notin2[OF primary_fails(4), of "EvPutTx key v r"] by auto
      from absent[OF a this]
      show "key = assetKey" .
    next
      fix xs key v r ys assume a: "new = xs @ EvPutTx key v r # ys"
      have "EvPutTx key v r \<notin> set new"
        unfolding eq using store_notin2[OF primary_fails(4), of "EvPutTx key v r"] by auto
      from absent[OF a this]
      show "\<exists>h. BootstrapOnce E h = ((v, None), tr @ xs)" .
    qed
  next
    case (publish_fails e a evs)
    let ?p = "EvPutTx assetKey a (Some e)"
    let ?d = "EvDelete assetLockKey (Delete_res E (tr @ [?g, ?l] @ evs @ [?p]) assetLockKey)"
    from run publish_fails(6) have eq: "new = ([?g, ?l] @ evs) @ ?p # [?d]" by auto
    have put: "xs = [?g, ?l] @ evs \<and> key = assetKey \<and> v = a"
      if a: "new = xs @ EvPutTx key v r # ys" for xs key v r ys
    proof -
      note 1 = a[unfolded eq]
      have 2: "EvPutTx key v r \<notin> set ([?g, ?l] @ evs)"
        using store_notin2[OF publish_fails(4), of "EvPutTx key v r"] by simp
      from split_skip[OF 1 2] obtain xs' where x: "xs = ([?g, ?l] @ evs) @ xs'"
        "?p # [?d] = xs' @ EvPutTx key v r # ys" by blast
      from head_only[OF x(2)] x(1) show ?thesis by simp
    qed
    show ?thesis
    proof (intro conjI allI impI)
      fix xs w ys assume a: "new = xs @ w # ys \<and> isWriteFile w"
      then have w: "isWriteFile w" and d: "new = xs @ w # ys" by simp_all
      have "w \<notin> set new" unfolding eq using w wf_notin[OF publish_fails(4), of w] by auto
      from absent[OF d this]
      show "\<exists>zs a ws. xs = zs @ EvGet assetKey (Inr a) # ws" .
    next
      fix xs key v r ys assume a: "new = xs @ EvPutTx key v r # ys"
      from put[OF a] show "key = assetKey" by simp
    next
      fix xs key v r ys assume a: "new = xs @ EvPutTx key v r # ys"
      from put[OF a] publish_fails(3)
      show "\<exists>h. BootstrapOnce E h = ((v, None), tr @ xs)" by auto
    qed
  next
    case (published a evs)
    let ?p = "EvPutTx assetKey a None"
    from run published(6) have eq: "new = ([?g, ?l] @ evs) @ ?p # []" by auto
    have put: "xs = [?g, ?l] @ evs \<and> key = assetKey \<and> v = a"
      if a: "new = xs @ EvPutTx key v r # ys" for xs key v r ys
    proof -
      note 1 = a[unfolded eq]
      have 2: "EvPutTx key v r \<notin> set ([?g, ?l] @ evs)"
        using store_notin2[OF published(4), of "EvPutTx key v r"] by simp
      from split_skip[OF 1 2] obtain xs' where x: "xs = ([?g, ?l] @ evs) @ xs'"
        "?p # [] = xs' @ EvPutTx key v r # ys" by blast
      from head_only[OF x(2)] x(1) show ?thesis by simp
    qed
    show ?thesis
    proof (intro conjI allI impI)
      fix xs w ys assume a: "new = xs @ w # ys \<and> isWriteFile w"
      then have w: "isWriteFile w" and d: "new = xs @ w # ys" by simp_all
      have "w \<notin> set new" unfolding eq using w wf_notin[OF published(4), of w] by auto
      from absent[OF d this]
      show "\<exists>zs a ws. xs = zs @ EvGet assetKey (Inr a) # ws" .
    next
      fix xs key v r ys assume a: "new = xs @ EvPutTx key v r # ys"
      from put[OF a] show "key = assetKey" by simp
    next
      fix xs key v r ys assume a: "new = xs @ EvPutTx key v r # ys"
      from put[OF a] published(3)
      show "\<exists>h. BootstrapOnce E h = ((v, None), tr @ xs)" by auto
    qed
  next
    case (secondary_fails e a evs)
    from run secondary_fails(4) have eq: "new = ?g # evs" by auto
    show ?thesis
    proof (intro conjI allI impI)
      fix xs w ys assume a: "new = xs @ w # ys \<and> isWriteFile w"
      then have w: "isWriteFile w" and d: "new = xs @ w # ys" by simp_all
      have "?g \<noteq> w" using w by auto
      from peel[OF d[unfolded eq] this] obtain xs' where "xs = ?g # xs'" by blast
      with secondary_fails(1) have "xs = [] @ EvGet assetKey (Inr a) # xs'" by simp
      then show "\<exists>zs a ws. xs = zs @ EvGet assetKey (Inr a) # ws" by blast
    next
      fix xs key v r ys assume a: "new = xs @ EvPutTx key v r # ys"
      have "EvPutTx key v r \<notin> set new"
        unfolding eq using store_notin[OF secondary_fails(3), of "EvPutTx key v r"] by auto
      from absent[OF a this]
      show "key = assetKey" .
    next
      fix xs key v r ys assume a: "new = xs @ EvPutTx key v r # ys"
      have "EvPutTx key v r \<notin> set new"
        unfolding eq using store_notin[OF secondary_fails(3), of "EvPutTx key v r"] by auto
      from absent[OF a this]
      show "\<exists>h. BootstrapOnce E h = ((v, None), tr @ xs)" .
    qed
  next
    case (secondary_done a evs)
    from run secondary_done(4) have eq: "new = ?g # evs" by auto
    show ?thesis
    proof (intro conjI allI impI)
      fix xs w ys assume a: "new = xs @ w # ys \<and> isWriteFile w"
      then have w: "isWriteFile w" and d: "new = xs @ w # ys" by simp_all
      have "?g \<noteq> w" using w by auto
      from peel[OF d[unfolded eq] this] obtain xs' where "xs = ?g # xs'" by blast
      with secondary_done(1) have "xs = [] @ EvGet assetKey (Inr a) # xs'" by simp
      then show "\<exists>zs a ws. xs = zs @ EvGet assetKey (Inr a) # ws" by blast
    next
      fix xs key v r ys assume a: "new = xs @ EvPutTx key v r # ys"
      have "EvPutTx key v r \<notin> set new"
        unfolding eq using store_notin[OF secondary_done(3), of "EvPutTx key v r"] by auto
      from absent[OF a this]
      show "key = assetKey" .
    next
      fix xs key v r ys assume a: "new = xs @ EvPutTx key v r # ys"
      have "EvPutTx key v r \<notin> set new"
        unfolding eq using store_notin[OF secondary_done(3), of "EvPutTx key v r"] by auto
      from absent[OF a this]
      show "\<exists>h. BootstrapOnce E h = ((v, None), tr @ xs)" .
    qed
  qed
qed

lemma BootstrapSecondaryMaster_first_call:
  "\<exists>r rest. snd (BootstrapSecondaryMaster E a h) =
      h @ EvWriteFile (PkiDir @ ''/'' @ ServiceAccountPublicKeyName)
            (SaPub (snd (json_Unmarshal a
               \<lparr> FrontProxyCa = [], FrontProxyCaKey = [], SaPub = [], SaKey = [] \<rparr>))) 420 r # rest"
  by (auto simp: BootstrapSecondaryMaster_def SaveAssets_def call_defs
           split: prod.splits option.splits)

text \<open>
  C4.  In every run of \<open>CreateOrGetSharedAssets\<close>, whatever the fuel: a file is written
  only after a get of the asset key has returned a present record (writing the
  service-account public key is the first call of \<open>BootstrapSecondaryMaster\<close>, third
  conjunct, and nothing else writes files); and every \<open>PutTx\<close> is a write of the asset key
  whose value is the payload that a call of \<open>BootstrapOnce\<close> returned together with a nil
  error, that call having ended at exactly the history at which the \<open>PutTx\<close> is issued.
\<close>

theorem secondary_after_present_get_publish_after_bootstrap:
  assumes run: "CreateOrGetSharedAssets fuel E k tr = (out, tr @ new)"
  shows "(\<forall>xs w ys. new = xs @ w # ys \<and> isWriteFile w \<longrightarrow>
            (\<exists>zs a ws. xs = zs @ EvGet assetKey (Inr a) # ws))
       \<and> (\<forall>xs key v r ys. new = xs @ EvPutTx key v r # ys \<longrightarrow>
            key = assetKey \<and> (\<exists>h. BootstrapOnce E h = ((v, None), tr @ xs)))
       \<and> (\<forall>a h. \<exists>r rest. snd (BootstrapSecondaryMaster E a h) =
            h @ EvWriteFile (PkiDir @ ''/'' @ ServiceAccountPublicKeyName)
                  (SaPub (snd (json_Unmarshal a
                     \<lparr> FrontProxyCa = [], FrontProxyCaKey = [], SaPub = [], SaKey = [] \<rparr>))) 420 r
                # rest)"
proof -
  let ?p = "[EvUpdateCloudCfg None, EvCopyKubeCa None, EvWriteManifests None]"
  have main: "(\<forall>xs w ys. new = xs @ w # ys \<and> isWriteFile w \<longrightarrow>
            (\<exists>zs a ws. xs = zs @ EvGet assetKey (Inr a) # ws))
       \<and> (\<forall>xs key v r ys. new = xs @ EvPutTx key v r # ys \<longrightarrow>
            key = assetKey \<and> (\<exists>h. BootstrapOnce E h = ((v, None), tr @ xs)))"
    if L: "electionLoop fuel E k (tr @ ?p) = (res, (tr @ ?p) @ lnew)"
      and eq: "new = ?p @ lnew @ post" and sp: "set post \<subseteq> {EvSpin}"
    for res lnew post
  proof -
    from electionLoop_order[OF L]
    have I1: "\<And>xs w ys. lnew = xs @ w # ys \<Longrightarrow> isWriteFile w \<Longrightarrow>
                 \<exists>zs a ws. xs = zs @ EvGet assetKey (Inr a) # ws"
     and I2: "\<And>xs key v r ys. lnew = xs @ EvPutTx key v r # ys \<Longrightarrow>
                 key = assetKey \<and> (\<exists>h. BootstrapOnce E h = ((v, None), (tr @ ?p) @ xs))"
      by blast+
    have loc: "\<exists>xs' ys'. xs = ?p @ xs' \<and> lnew = xs' @ w # ys'"
      if d: "new = xs @ w # ys" and n1: "w \<notin> set ?p" and n2: "w \<noteq> EvSpin" for xs w ys
    proof -
      from split_skip[OF d[unfolded eq] n1] obtain xs' where
        x: "xs = ?p @ xs'" "lnew @ post = xs' @ w # ys" by blast
      have "w \<notin> set post" using sp n2 by auto
      from split_skip_right[OF x(2) this] x(1) show ?thesis by blast
    qed
    show ?thesis
    proof (intro conjI allI impI)
      fix xs w ys assume a: "new = xs @ w # ys \<and> isWriteFile w"
      then have w: "isWriteFile w" and d: "new = xs @ w # ys" by simp_all
      have "w \<notin> set ?p" "w \<noteq> EvSpin" using w by auto
      from loc[OF d this] obtain xs' ys' where x: "xs = ?p @ xs'" "lnew = xs' @ w # ys'" by blast
      from I1[OF x(2) w] obtain zs a' ws where "xs' = zs @ EvGet assetKey (Inr a') # ws" by blast
      with x(1) have "xs = (?p @ zs) @ EvGet assetKey (Inr a') # ws" by simp
      then show "\<exists>zs a ws. xs = zs @ EvGet assetKey (Inr a) # ws" by blast
    next
      fix xs key v r ys assume d: "new = xs @ EvPutTx key v r # ys"
      have "EvPutTx key v r \<notin> set ?p" "EvPutTx key v r \<noteq> EvSpin" by simp_all
      from loc[OF d this] obtain xs' ys' where x: "xs = ?p @ xs'" "lnew = xs' @ EvPutTx key v r # ys'" by blast
      from I2[OF x(2)] show "key = assetKey" by simp
    next
      fix xs key v r ys assume d: "new = xs @ EvPutTx key v r # ys"
      have "EvPutTx key v r \<notin> set ?p" "EvPutTx key v r \<noteq> EvSpin" by simp_all
      from loc[OF d this] obtain xs' ys' where x: "xs = ?p @ xs'" "lnew = xs' @ EvPutTx key v r # ys'" by blast
      from I2[OF x(2)] obtain h where "BootstrapOnce E h = ((v, None), (tr @ ?p) @ xs')" by blast
      with x(1) show "\<exists>h. BootstrapOnce E h = ((v, None), tr @ xs)" by auto
    qed
  qed
  have "(\<forall>xs w ys. new = xs @ w # ys \<and> isWriteFile w \<longrightarrow>
            (\<exists>zs a ws. xs = zs @ EvGet assetKey (Inr a) # ws))
       \<and> (\<forall>xs key v r ys. new = xs @ EvPutTx key v r # ys \<longrightarrow>
            key = assetKey \<and> (\<exists>h. BootstrapOnce E h = ((v, None), tr @ xs)))"
  proof (cases rule: CreateOrGetSharedAssets_cases[where E=E and k=k and tr=tr and fuel=fuel])
    case (preamble_fails e evs)
    with run have eq: "new = evs" by auto
    show ?thesis
    proof (intro conjI allI impI)
      fix xs w ys assume a: "new = xs @ w # ys \<and> isWriteFile w"
      then have w: "isWriteFile w" and d: "new = xs @ w # ys" by simp_all
      have "w \<notin> set new" unfolding eq using w wf_notin[OF preamble_fails(2), of w] by auto
      from absent[OF d this] show "\<exists>zs a ws. xs = zs @ EvGet assetKey (Inr a) # ws" .
    next
      fix xs key v r ys assume d: "new = xs @ EvPutTx key v r # ys"
      have "EvPutTx key v r \<notin> set new"
        unfolding eq using store_notin2[OF preamble_fails(2), of "EvPutTx key v r"] by auto
      from absent[OF d this] show "key = assetKey" .
    next
      fix xs key v r ys assume d: "new = xs @ EvPutTx key v r # ys"
      have "EvPutTx key v r \<notin> set new"
        unfolding eq using store_notin2[OF preamble_fails(2), of "EvPutTx key v r"] by auto
      from absent[OF d this] show "\<exists>h. BootstrapOnce E h = ((v, None), tr @ xs)" .
    qed
  next
    case (loop_returns e lnew)
    with run have "new = ?p @ lnew @ []" by auto
    from main[OF loop_returns(1) this] show ?thesis by simp
  next
    case (loop_starved lnew)
    with run have "new = ?p @ lnew @ []" by auto
    from main[OF loop_starved(1) this] show ?thesis by simp
  next
    case (done_exit lnew)
    with run have "new = ?p @ lnew @ []" by auto
    from main[OF done_exit(1) this] show ?thesis by simp
  next
    case (done_spin lnew)
    with run have "new = ?p @ lnew @ replicate fuel EvSpin" by auto
    have "set (replicate fuel EvSpin) \<subseteq> {EvSpin}" by auto
    from main[OF done_spin(1) \<open>new = ?p @ lnew @ replicate fuel EvSpin\<close> this] show ?thesis .
  qed
  with BootstrapSecondaryMaster_first_call show ?thesis by blast
qed

lemma payload0_decoded:
  "json_Unmarshal payload0 \<lparr> FrontProxyCa = [], FrontProxyCaKey = [], SaPub = [], SaKey = [] \<rparr>
     = (None, \<lparr> FrontProxyCa = [], FrontProxyCaKey = [], SaPub = ''k'', SaKey = [] \<rparr>)"
  by (simp add: payload0_def json_defs)

lemma primary_run:
  "CreateOrGetSharedAssets (Suc 0) env0 cfg0 [] =
     (Returns None, [] @ primaryEvents @ EvPutTx assetKey (json_Marshal bundle0) None # [])"
  by (simp add: run_defs env0_def cfg0_def primaryEvents_def bundle0_def)

lemma secondary_run:
  "CreateOrGetSharedAssets (Suc 0) envPresent cfg0 [] =
     (Returns None,
      [] @ [EvUpdateCloudCfg None, EvCopyKubeCa None, EvWriteManifests None,
            EvGet assetKey (Inr payload0)]
         @ EvWriteFile (PkiDir @ ''/'' @ ServiceAccountPublicKeyName) ''k'' 420 None
         # secondaryEvents)"
  by (simp add: run_defs envPresent_def env0_def cfg0_def secondaryEvents_def payload0_decoded)

theorem secondary_after_present_get_publish_after_bootstrap_witness:
  "CreateOrGetSharedAssets (Suc 0) envPresent cfg0 [] =
     (Returns None,
      [] @ [EvUpdateCloudCfg None, EvCopyKubeCa None, EvWriteManifests None,
            EvGet assetKey (Inr payload0)]
         @ EvWriteFile (PkiDir @ ''/'' @ ServiceAccountPublicKeyName) ''k'' 420 None
         # secondaryEvents)
   \<and> isWriteFile (EvWriteFile (PkiDir @ ''/'' @ ServiceAccountPublicKeyName) ''k'' 420 None)
   \<and> (\<exists>zs a ws. [EvUpdateCloudCfg None, EvCopyKubeCa None, EvWriteManifests None,
                    EvGet assetKey (Inr payload0)] = zs @ EvGet assetKey (Inr a) # ws)
   \<and> CreateOrGetSharedAssets (Suc 0) env0 cfg0 [] =
     (Returns None, [] @ primaryEvents @ EvPutTx assetKey (json_Marshal bundle0) None # [])
   \<and> (\<exists>h. BootstrapOnce env0 h = ((json_Marshal bundle0, None), [] @ primaryEvents))"
proof -
  let ?w = "EvWriteFile (PkiDir @ ''/'' @ ServiceAccountPublicKeyName) ''k'' 420 None"
  from secondary_after_present_get_publish_after_bootstrap[OF secondary_run]
  have "[EvUpdateCloudCfg None, EvCopyKubeCa None, EvWriteManifests None,
         EvGet assetKey (Inr payload0)] @ ?w # secondaryEvents
        = [EvUpdateCloudCfg None, EvCopyKubeCa None, EvWriteManifests None,
           EvGet assetKey (Inr payload0)] @ ?w # secondaryEvents \<and> isWriteFile ?w
        \<longrightarrow> (\<exists>zs a ws. [EvUpdateCloudCfg None, EvCopyKubeCa None, EvWriteManifests None,
                    EvGet assetKey (Inr payload0)] = zs @ EvGet assetKey (Inr a) # ws)"
    by blast
  then have s: "\<exists>zs a ws. [EvUpdateCloudCfg None, EvCopyKubeCa None, EvWriteManifests None,
                    EvGet assetKey (Inr payload0)] = zs @ EvGet assetKey (Inr a) # ws"
    by simp
  from secondary_after_present_get_publish_after_bootstrap[OF primary_run]
  have "primaryEvents @ EvPutTx assetKey (json_Marshal bundle0) None # []
        = primaryEvents @ EvPutTx assetKey (json_Marshal bundle0) None # []
        \<longrightarrow> (\<exists>h. BootstrapOnce env0 h = ((json_Marshal bundle0, None), [] @ primaryEvents))"
    by blast
  then have p: "\<exists>h. BootstrapOnce env0 h = ((json_Marshal bundle0, None), [] @ primaryEvents)"
    by simp
  from s p secondary_run primary_run show ?thesis by simp
qed

section \<open>Errors that the bootstrap sequences do not propagate\<close>

lemma BootstrapOnce_drops_load_error:
  assumes "CreatePKI_res E tr = None"
      and "LoadAndSerializeAssets E (tr @ [EvCreatePKI None]) = ((a, Some e), tr2)"
      and "CreateKubeConfig_res E tr2 = None"
      and "CreateAndStartKubelet_res E (tr2 @ [EvCreateKubeConfig None]) True = None"
      and "Addons_res E (tr2 @ [EvCreateKubeConfig None, EvCreateAndStartKubelet True None]) = None"
      and "InstallNetwork_res E (tr2 @ [EvCreateKubeConfig None, EvCreateAndStartKubelet True None,
             EvAddons None]) = None"
      and "TokensDeploy_res E (tr2 @ [EvCreateKubeConfig None, EvCreateAndStartKubelet True None,
             EvAddons None, EvInstallNetwork None]) = None"
  shows "BootstrapOnce E tr =
           ((a, None), tr2 @ [EvCreateKubeConfig None, EvCreateAndStartKubelet True None,
              EvAddons None, EvInstallNetwork None, EvTokensDeploy None])"
  using assms by (simp add: BootstrapOnce_def call_defs)

text \<open>
  C2.  The claim is that a failure of \<open>LoadAndSerializeAssets\<close> fails \<open>BootstrapOnce\<close>: the
  error is returned, no later step runs, nothing is published.  The code does otherwise.
  On a disk whose front-proxy certificate is not a CA, \<open>LoadAndSerializeAssets\<close> returns
  the empty string and an error; \<open>BootstrapOnce\<close> goes on with all five later steps and
  returns the empty string with a nil error; and \<open>CreateOrGetSharedAssets\<close> publishes the
  empty string under the asset key and returns nil.
\<close>

theorem BootstrapOnce_ignores_load_failure:
  "LoadAndSerializeAssets envNotCA [EvCreatePKI None] =
     (('''', Some (Err ''certificate and key could be loaded but the certificate is not a CA'')),
      notCAEvents)
   \<and> BootstrapOnce envNotCA [] =
     (('''', None),
      notCAEvents @ [EvCreateKubeConfig None, EvCreateAndStartKubelet True None,
         EvAddons None, EvInstallNetwork None, EvTokensDeploy None])
   \<and> CreateOrGetSharedAssets (Suc 0) envNotCA cfg0 [] =
     (Returns None,
      [EvUpdateCloudCfg None, EvCopyKubeCa None, EvWriteManifests None,
       EvGet assetKey (Inl ErrKeyMissing),
       EvGetOrCreateLock assetLockKey defaultLockTTL (Inr True)]
      @ notCAEvents
      @ [EvCreateKubeConfig None, EvCreateAndStartKubelet True None,
         EvAddons None, EvInstallNetwork None, EvTokensDeploy None,
         EvPutTx assetKey '''' None])"
  by (simp add: run_defs envNotCA_def env0_def cfg0_def notCAEvents_def)

text \<open>
  C3.  The claim is that a malformed payload makes \<open>SaveAssets\<close> fail with a decoding
  error, so that \<open>BootstrapSecondaryMaster\<close> stops at its first step.  The code does
  otherwise.  On the payload \<open>{\<close>, which the decoder rejects, \<open>SaveAssets\<close> writes four
  empty files and returns nil; \<open>BootstrapSecondaryMaster\<close> runs all its later steps and
  returns nil; and \<open>CreateOrGetSharedAssets\<close>, reading that payload from the store,
  returns nil.  (No call in these runs deletes, locks or writes a store key.)
\<close>

theorem SaveAssets_ignores_decoding_error:
  "fst (json_Unmarshal ''{''
          \<lparr> FrontProxyCa = [], FrontProxyCaKey = [], SaPub = [], SaKey = [] \<rparr>)
     = Some (Err ''json: syntax error'')
   \<and> SaveAssets env0 ''{'' [] =
     (None,
      [EvWriteFile (PkiDir @ ''/'' @ ServiceAccountPublicKeyName) [] 420 None,
       EvWriteFile (PkiDir @ ''/'' @ ServiceAccountPrivateKeyName) [] 384 None,
       EvWriteFile (PkiDir @ ''/'' @ FrontProxyCACertName) [] 420 None,
       EvWriteFile (PkiDir @ ''/'' @ FrontProxyCAKeyName) [] 384 None])
   \<and> BootstrapSecondaryMaster env0 ''{'' [] =
     (None,
      [EvWriteFile (PkiDir @ ''/'' @ ServiceAccountPublicKeyName) [] 420 None,
       EvWriteFile (PkiDir @ ''/'' @ ServiceAccountPrivateKeyName) [] 384 None,
       EvWriteFile (PkiDir @ ''/'' @ FrontProxyCACertName) [] 420 None,
       EvWriteFile (PkiDir @ ''/'' @ FrontProxyCAKeyName) [] 384 None,
       EvCreatePKI None, EvCreateKubeConfig None, EvCreateAndStartKubelet True None,
       EvUpdateMasterRoleLabelsAndTaints None])
   \<and> fst (CreateOrGetSharedAssets (Suc 0) envCorrupt cfg0 []) = Returns None"
  by (simp add: run_defs envCorrupt_def env0_def cfg0_def json_defs)

lemma SaveAssets_errors_are_write_errors:
  "SaveAssets E a tr = (Some e, tr') \<Longrightarrow>
     \<exists>xs p c m e' f. tr' = xs @ [EvWriteFile p c m (Some e')] \<and> e = Errorf f e'"
  by (auto simp: SaveAssets_def call_defs split: prod.splits option.splits)

section \<open>The lock TTL and the back-off\<close>

lemma electionLoop_lock_events:
  "electionLoop n E k tr = (res, tr @ new) \<Longrightarrow>
   new = xs @ EvGetOrCreateLock key ttl r # ys \<Longrightarrow>
     key = assetLockKey \<and> ttl = defaultLockTTL
     \<and> (r = Inr False \<longrightarrow> (\<exists>zs. ys = EvSleep (MasterBackOffTime k) # zs))"
proof (induction n arbitrary: tr new xs)
  case 0
  then show ?case by simp
next
  case (Suc n)
  let ?g = "EvGet assetKey (Get_res E tr assetKey)"
  let ?l = "EvGetOrCreateLock assetLockKey defaultLockTTL
              (GetOrCreateLock_res E (tr @ [?g]) assetLockKey defaultLockTTL)"
  let ?s = "EvSleep (MasterBackOffTime k)"
  let ?w = "EvGetOrCreateLock key ttl r"
  note run = Suc.prems(1) and pos = Suc.prems(2)
  have second: ?case if eq: "new = ?g # ?l # rest" and n: "?w \<notin> set rest"
      and won: "GetOrCreateLock_res E (tr @ [?g]) assetLockKey defaultLockTTL \<noteq> Inr False" for rest
  proof -
    have "?g \<noteq> ?w" by simp
    from peel[OF pos[unfolded eq] this] obtain xs1 where "?l # rest = xs1 @ ?w # ys" by blast
    from head_only[OF this n] won show ?thesis by auto
  qed
  show ?case
  proof (cases rule: electionLoop_iteration[where E=E and tr=tr and k=k and n=n])
    case (get_error e)
    from run get_error(3) have eq: "new = [?g]" by auto
    have "?w \<notin> set new" unfolding eq by simp
    from absent[OF pos this] show ?thesis .
  next
    case (lock_error e)
    from run lock_error(3) have eq: "new = ?g # ?l # []" by auto
    from second[OF eq] lock_error(2) show ?thesis by simp
  next
    case contention
    obtain new' where N: "electionLoop n E k (tr @ [?g, ?l, ?s]) = (res, (tr @ [?g, ?l, ?s]) @ new')"
      using electionLoop_extends[of n E k "tr @ [?g, ?l, ?s]"] contention(3) run
      by (cases "electionLoop n E k (tr @ [?g, ?l, ?s])") auto
    with contention(3) run have eq: "new = ?g # ?l # ?s # new'" by auto
    have "?g \<noteq> ?w" by simp
    from peel[OF pos[unfolded eq] this] obtain xs1 where e1: "?l # ?s # new' = xs1 @ ?w # ys" by blast
    show ?thesis
    proof (cases xs1)
      case Nil
      with e1 show ?thesis by auto
    next
      case (Cons b xs2)
      with e1 have e2: "?s # new' = xs2 @ ?w # ys" by simp
      have "?s \<noteq> ?w" by simp
      from peel[OF e2 this] obtain xs3 where e3: "new' = xs3 @ ?w # ys" by blast
      from Suc.IH[OF N e3] show ?thesis .
    qed
  next
    case (primary_fails e a evs)
    let ?rest = "evs @ [EvDelete assetLockKey (Delete_res E (tr @ [?g, ?l] @ evs) assetLockKey)]"
    from run primary_fails(5) have eq: "new = ?g # ?l # ?rest" by auto
    have "?w \<notin> set ?rest" using store_notin2[OF primary_fails(4), of ?w] by simp
    from second[OF eq this] primary_fails(2) show ?thesis by simp
  next
    case (publish_fails e a evs)
    let ?rest = "evs @ [EvPutTx assetKey a (Some e)] @ [EvDelete assetLockKey
                 (Delete_res E (tr @ [?g, ?l] @ evs @ [EvPutTx assetKey a (Some e)]) assetLockKey)]"
    from run publish_fails(6) have eq: "new = ?g # ?l # ?rest" by auto
    have "?w \<notin> set ?rest" using store_notin2[OF publish_fails(4), of ?w] by simp
    from second[OF eq this] publish_fails(2) show ?thesis by simp
  next
    case (published a evs)
    let ?rest = "evs @ [EvPutTx assetKey a None]"
    from run published(6) have eq: "new = ?g # ?l # ?rest" by auto
    have "?w \<notin> set ?rest" using store_notin2[OF published(4), of ?w] by simp
    from second[OF eq this] published(2) show ?thesis by simp
  next
    case (secondary_fails e a evs)
    from run secondary_fails(4) have eq: "new = ?g # evs" by auto
    have "?w \<notin> set new" unfolding eq using store_notin[OF secondary_fails(3), of ?w] by simp
    from absent[OF pos this] show ?thesis .
  next
    case (secondary_done a evs)
    from run secondary_done(4) have eq: "new = ?g # evs" by auto
    have "?w \<notin> set new" unfolding eq using store_notin[OF secondary_done(3), of ?w] by simp
    from absent[OF pos this] show ?thesis .
  qed
qed

text \<open>
  C6, as the code has it.  In every run of \<open>CreateOrGetSharedAssets\<close> the lock is asked
  for under the lock key with the constant \<open>defaultLockTTL\<close> (120 seconds; the
  configuration has no field for it), and a lock that was not obtained is followed at
  once by a sleep of \<open>MasterBackOffTime\<close> of the configuration the run was started on,
  before anything else happens.  \<open>New\<close> sets that field to \<open>defaultBackOff\<close> (20 seconds)
  whatever the caller had put there.
\<close>

theorem lock_ttl_is_constant_backoff_is_config_field:
  assumes run: "CreateOrGetSharedAssets fuel E k tr = (out, tr @ new)"
      and pos: "new = xs @ EvGetOrCreateLock key ttl r # ys"
  shows "key = assetLockKey \<and> ttl = defaultLockTTL \<and> defaultLockTTL = 120 * Second
     \<and> (r = Inr False \<longrightarrow> (\<exists>zs. ys = EvSleep (MasterBackOffTime k) # zs))
     \<and> MasterBackOffTime (New cfg) = defaultBackOff \<and> defaultBackOff = 20 * Second"
proof -
  let ?p = "[EvUpdateCloudCfg None, EvCopyKubeCa None, EvWriteManifests None]"
  let ?w = "EvGetOrCreateLock key ttl r"
  have main: "key = assetLockKey \<and> ttl = defaultLockTTL
     \<and> (r = Inr False \<longrightarrow> (\<exists>zs. ys = EvSleep (MasterBackOffTime k) # zs))"
    if L: "electionLoop fuel E k (tr @ ?p) = (res, (tr @ ?p) @ lnew)"
      and eq: "new = ?p @ lnew @ post" and sp: "set post \<subseteq> {EvSpin}"
    for res lnew post
  proof -
    have n1: "?w \<notin> set ?p" by simp
    from split_skip[OF pos[unfolded eq] n1] obtain xs' where
      x: "xs = ?p @ xs'" "lnew @ post = xs' @ ?w # ys" by blast
    have "?w \<notin> set post" using sp by auto
    from split_skip_right[OF x(2) this] obtain ys' where y: "lnew = xs' @ ?w # ys'" "ys = ys' @ post"
      by blast
    from electionLoop_lock_events[OF L y(1)] y(2) show ?thesis by auto
  qed
  have "key = assetLockKey \<and> ttl = defaultLockTTL
     \<and> (r = Inr False \<longrightarrow> (\<exists>zs. ys = EvSleep (MasterBackOffTime k) # zs))"
  proof (cases rule: CreateOrGetSharedAssets_cases[where E=E and k=k and tr=tr and fuel=fuel])
    case (preamble_fails e evs)
    with run have eq: "new = evs" by auto
    have "?w \<notin> set new" unfolding eq using store_notin2[OF preamble_fails(2), of ?w] by simp
    from absent[OF pos this] show ?thesis .
  next
    case (loop_returns e lnew)
    with run have "new = ?p @ lnew @ []" by auto
    from main[OF loop_returns(1) this] show ?thesis by simp
  next
    case (loop_starved lnew)
    with run have "new = ?p @ lnew @ []" by auto
    from main[OF loop_starved(1) this] show ?thesis by simp
  next
    case (done_exit lnew)
    with run have "new = ?p @ lnew @ []" by auto
    from main[OF done_exit(1) this] show ?thesis by simp
  next
    case (done_spin lnew)
    with run have n: "new = ?p @ lnew @ replicate fuel EvSpin" by auto
    have "set (replicate fuel EvSpin) \<subseteq> {EvSpin}" by auto
    from main[OF done_spin(1) n this] show ?thesis .
  qed
  then show ?thesis
    by (simp add: New_def defaultLockTTL_def defaultBackOff_def)
qed

lemma contended_run:
  "CreateOrGetSharedAssets (Suc 0) envContended (New cfg0) [] =
     (OutOfFuel,
      [] @ [EvUpdateCloudCfg None, EvCopyKubeCa None, EvWriteManifests None,
       EvGet assetKey (Inl ErrKeyMissing),
       EvGetOrCreateLock assetLockKey (120 * Second) (Inr False),
       EvSleep (20 * Second)])"
  by (simp add: run_defs envContended_def env0_def cfg0_def New_def defaultLockTTL_def
        defaultBackOff_def)

text \<open>
  A caller who supplies a back-off of 5 seconds and builds the configuration with \<open>New\<close>
  gets a run that sleeps 20 seconds on contention, and the lock is asked for with 120
  seconds: the supplied value is not the one used.
\<close>

theorem caller_backoff_is_overwritten_counterexample:
  "MasterBackOffTime cfg0 = 5 * Second
   \<and> CreateOrGetSharedAssets (Suc 0) envContended (New cfg0) [] =
     (OutOfFuel,
      [EvUpdateCloudCfg None, EvCopyKubeCa None, EvWriteManifests None,
       EvGet assetKey (Inl ErrKeyMissing),
       EvGetOrCreateLock assetLockKey (120 * Second) (Inr False),
       EvSleep (20 * Second)])
   \<and> 20 * Second \<noteq> 5 * Second"
  using contended_run by (simp add: cfg0_def Second_def)

theorem lock_ttl_is_constant_backoff_is_config_field_witness:
  "CreateOrGetSharedAssets (Suc 0) envContended (New cfg0) [] =
     (OutOfFuel,
      [] @ [EvUpdateCloudCfg None, EvCopyKubeCa None, EvWriteManifests None,
       EvGet assetKey (Inl ErrKeyMissing),
       EvGetOrCreateLock assetLockKey (120 * Second) (Inr False),
       EvSleep (20 * Second)])
   \<and> (\<exists>zs. [EvSleep (20 * Second)] = EvSleep (MasterBackOffTime (New cfg0)) # zs)
   \<and> MasterBackOffTime (New cfg0) = 20 * Second"
  using contended_run
    lock_ttl_is_constant_backoff_is_config_field[OF contended_run,
      of "[EvUpdateCloudCfg None, EvCopyKubeCa None, EvWriteManifests None,
           EvGet assetKey (Inl ErrKeyMissing)]"
         assetLockKey "120 * Second" "Inr False" "[EvSleep (20 * Second)]" cfg0]
  by simp

section \<open>After a successful bootstrap\<close>

lemma electionLoop_more_fuel:
  "electionLoop n E k tr = (r, tr') \<Longrightarrow> r \<noteq> LoopOutOfFuel \<Longrightarrow>
   electionLoop (n + m) E k tr = (r, tr')"
proof (induction n arbitrary: tr)
  case 0
  then show ?case by simp
next
  case (Suc n)
  let ?g = "EvGet assetKey (Get_res E tr assetKey)"
  let ?l = "EvGetOrCreateLock assetLockKey defaultLockTTL
              (GetOrCreateLock_res E (tr @ [?g]) assetLockKey defaultLockTTL)"
  let ?s = "EvSleep (MasterBackOffTime k)"
  have S: "Suc n + m = Suc (n + m)" by simp
  show ?case
  proof (cases rule: electionLoop_iteration[where E=E and tr=tr and k=k and n=n])
    case contention
    from contention(3) Suc.prems(1)
    have "electionLoop n E k (tr @ [?g, ?l, ?s]) = (r, tr')" by simp
    from Suc.IH[OF this Suc.prems(2)]
    have "electionLoop (n + m) E k (tr @ [?g, ?l, ?s]) = (r, tr')" .
    moreover have "electionLoop (Suc (n + m)) E k tr = electionLoop (n + m) E k (tr @ [?g, ?l, ?s])"
      using contention(1,2)
      by (simp add: electionLoop.simps(2) Etcd_Get_def Etcd_GetOrCreateLock_def time_Sleep_def Let_def)
    ultimately show ?thesis unfolding S by simp
  next
    case (get_error e)
    from get_error(3) Suc.prems(1) have "(r, tr') = (LoopReturn e, tr @ [?g])" by simp
    moreover have "electionLoop (Suc (n + m)) E k tr = (LoopReturn e, tr @ [?g])"
      by (rule electionLoop_iteration[where E=E and tr=tr and k=k and n="n + m"])
         (use get_error(1,2) in auto)
    ultimately show ?thesis unfolding S by simp
  next
    case (lock_error e)
    have "electionLoop (Suc (n + m)) E k tr = electionLoop (Suc n) E k tr"
      using lock_error(1,2)
      by (simp add: electionLoop.simps(2) Etcd_Get_def Etcd_GetOrCreateLock_def Let_def)
    with Suc.prems(1) show ?thesis unfolding S by simp
  next
    case (primary_fails e a evs)
    have "electionLoop (Suc (n + m)) E k tr = electionLoop (Suc n) E k tr"
      using primary_fails(1,2)
      by (simp add: electionLoop.simps(2) Etcd_Get_def Etcd_GetOrCreateLock_def Let_def)
    with Suc.prems(1) show ?thesis unfolding S by simp
  next
    case (publish_fails e a evs)
    have "electionLoop (Suc (n + m)) E k tr = electionLoop (Suc n) E k tr"
      using publish_fails(1,2)
      by (simp add: electionLoop.simps(2) Etcd_Get_def Etcd_GetOrCreateLock_def Let_def)
    with Suc.prems(1) show ?thesis unfolding S by simp
  next
    case (published a evs)
    have "electionLoop (Suc (n + m)) E k tr = electionLoop (Suc n) E k tr"
      using published(1,2)
      by (simp add: electionLoop.simps(2) Etcd_Get_def Etcd_GetOrCreateLock_def Let_def)
    with Suc.prems(1) show ?thesis unfolding S by simp
  next
    case (secondary_fails e a evs)
    have "electionLoop (Suc (n + m)) E k tr = electionLoop (Suc n) E k tr"
      using secondary_fails(1)
      by (simp add: electionLoop.simps(2) Etcd_Get_def Let_def)
    with Suc.prems(1) show ?thesis unfolding S by simp
  next
    case (secondary_done a evs)
    have "electionLoop (Suc (n + m)) E k tr = electionLoop (Suc n) E k tr"
      using secondary_done(1)
      by (simp add: electionLoop.simps(2) Etcd_Get_def Let_def)
    with Suc.prems(1) show ?thesis unfolding S by simp
  qed
qed

text \<open>
  C8, as the code has it.  When the three preparatory steps succeed and the election
  loop is left by \<open>break\<close> (a successful bootstrap, as primary or as secondary) within
  \<open>n\<close> iterations, then with \<open>ExitOnCompletion\<close> set \<open>CreateOrGetSharedAssets\<close> returns nil,
  and with \<open>ExitOnCompletion\<close> unset it does not return whatever fuel it is given: it
  goes round the empty loop \<open>for true {}\<close> once for every unit of fuel.  That is a busy
  loop, not a parked wait.
\<close>

theorem returns_if_ExitOnCompletion_else_spins:
  assumes u: "UpdateCloudCfg_res E tr = None"
      and c: "CopyKubeCa_res E (tr @ [EvUpdateCloudCfg None]) = None"
      and w: "WriteManifests_res E (tr @ [EvUpdateCloudCfg None, EvCopyKubeCa None]) = None"
      and brk: "electionLoop n E k
                   (tr @ [EvUpdateCloudCfg None, EvCopyKubeCa None, EvWriteManifests None])
                 = (LoopBreak, tr')"
  shows "CreateOrGetSharedAssets (n + m) E k tr =
           (if ExitOnCompletion k then (Returns None, tr')
            else (OutOfFuel, tr' @ replicate (n + m) EvSpin))"
proof -
  from electionLoop_more_fuel[OF brk, of m]
  have "electionLoop (n + m) E k
          (tr @ [EvUpdateCloudCfg None, EvCopyKubeCa None, EvWriteManifests None])
        = (LoopBreak, tr')" by simp
  with u c w show ?thesis
    by (simp add: CreateOrGetSharedAssets_def Kmm_UpdateCloudCfg_def Kmm_CopyKubeCa_def
          Kubeadm_WriteManifests_def Let_def keepAlive_history)
qed

lemma primary_loop_done:
  "electionLoop (Suc 0) env0 cfgBlock
     ([] @ [EvUpdateCloudCfg None, EvCopyKubeCa None, EvWriteManifests None])
   = (LoopBreak, primaryEvents @ [EvPutTx assetKey (json_Marshal bundle0) None])"
  by (simp add: run_defs env0_def primaryEvents_def bundle0_def)

text \<open>
  On an empty store, with \<open>ExitOnCompletion\<close> unset and fuel for three iterations, the run
  publishes the assets and then goes round the keep-alive loop three times.
\<close>

theorem keep_alive_spins_counterexample:
  "CreateOrGetSharedAssets (Suc (Suc (Suc 0))) env0 cfgBlock [] =
     (OutOfFuel,
      primaryEvents @ [EvPutTx assetKey (json_Marshal bundle0) None, EvSpin, EvSpin, EvSpin])"
  by (simp add: run_defs env0_def cfgBlock_def cfg0_def primaryEvents_def bundle0_def)

theorem returns_if_ExitOnCompletion_else_spins_witness:
  "UpdateCloudCfg_res env0 [] = None
   \<and> CopyKubeCa_res env0 ([] @ [EvUpdateCloudCfg None]) = None
   \<and> WriteManifests_res env0 ([] @ [EvUpdateCloudCfg None, EvCopyKubeCa None]) = None
   \<and> electionLoop (Suc 0) env0 cfgBlock
        ([] @ [EvUpdateCloudCfg None, EvCopyKubeCa None, EvWriteManifests None])
      = (LoopBreak, primaryEvents @ [EvPutTx assetKey (json_Marshal bundle0) None])
   \<and> \<not> ExitOnCompletion cfgBlock
   \<and> CreateOrGetSharedAssets (Suc 0 + 4) env0 cfgBlock [] =
       (OutOfFuel, (primaryEvents @ [EvPutTx assetKey (json_Marshal bundle0) None])
                     @ replicate (Suc 0 + 4) EvSpin)"
proof -
  have u: "UpdateCloudCfg_res env0 [] = None"
    and c: "CopyKubeCa_res env0 ([] @ [EvUpdateCloudCfg None]) = None"
    and w: "WriteManifests_res env0 ([] @ [EvUpdateCloudCfg None, EvCopyKubeCa None]) = None"
    by (simp_all add: env0_def)
  have b: "\<not> ExitOnCompletion cfgBlock" by (simp add: cfgBlock_def)
  from returns_if_ExitOnCompletion_else_spins[OF u c w primary_loop_done, of 4] b
  have "CreateOrGetSharedAssets (Suc 0 + 4) env0 cfgBlock [] =
       (OutOfFuel, (primaryEvents @ [EvPutTx assetKey (json_Marshal bundle0) None])
                     @ replicate (Suc 0 + 4) EvSpin)" by simp
  with u c w b primary_loop_done show ?thesis by blast
qed

section \<open>A failing primary sequence returns its error and releases the lock\<close>

lemma electionLoop_after_lock_won:
  assumes "electionLoop n E k tr = (res, tr @ new)"
      and "new = xs @ EvGetOrCreateLock assetLockKey defaultLockTTL (Inr True) # ys"
      and "BootstrapOnce E (tr @ xs @ [EvGetOrCreateLock assetLockKey defaultLockTTL (Inr True)])
             = ((a, err), h)"
  shows "(\<forall>e. err = Some e \<longrightarrow>
            res = LoopReturn e
            \<and> tr @ new = h @ [EvDelete assetLockKey (Delete_res E h assetLockKey)])
       \<and> (\<forall>e. err = None \<and> PutTx_res E h assetKey a = Some e \<longrightarrow>
            res = LoopReturn e
            \<and> tr @ new = h @ [EvPutTx assetKey a (Some e),
                 EvDelete assetLockKey
                   (Delete_res E (h @ [EvPutTx assetKey a (Some e)]) assetLockKey)])"
  using assms
proof (induction n arbitrary: tr new xs)
  case 0
  then show ?case by simp
next
  case (Suc n)
  let ?g = "EvGet assetKey (Get_res E tr assetKey)"
  let ?l = "EvGetOrCreateLock assetLockKey defaultLockTTL
              (GetOrCreateLock_res E (tr @ [?g]) assetLockKey defaultLockTTL)"
  let ?s = "EvSleep (MasterBackOffTime k)"
  let ?w = "EvGetOrCreateLock assetLockKey defaultLockTTL (Inr True)"
  note run = Suc.prems(1) and pos = Suc.prems(2) and boot = Suc.prems(3)
  have first: "xs = [?g] \<and> ?l = ?w" if eq: "new = ?g # ?l # rest" and n: "?w \<notin> set rest" for rest
  proof -
    have "?g \<noteq> ?w" by simp
    from peel[OF pos[unfolded eq] this] obtain xs1 where x: "xs = ?g # xs1" "?l # rest = xs1 @ ?w # ys"
      by blast
    from head_only[OF x(2) n] x(1) show ?thesis by simp
  qed
  show ?case
  proof (cases rule: electionLoop_iteration[where E=E and tr=tr and k=k and n=n])
    case (get_error e)
    from run get_error(3) have eq: "new = [?g]" by auto
    have "?w \<notin> set new" unfolding eq by simp
    from absent[OF pos this] show ?thesis .
  next
    case (lock_error e)
    from run lock_error(3) have eq: "new = [?g, ?l]" by auto
    have "?w \<notin> set new" unfolding eq using lock_error(2) by simp
    from absent[OF pos this] show ?thesis .
  next
    case contention
    obtain new' where N: "electionLoop n E k (tr @ [?g, ?l, ?s]) = (res, (tr @ [?g, ?l, ?s]) @ new')"
      using electionLoop_extends[of n E k "tr @ [?g, ?l, ?s]"] contention(3) run
      by (cases "electionLoop n E k (tr @ [?g, ?l, ?s])") auto
    with contention(3) run have eq: "new = ?g # ?l # ?s # new'" by auto
    have "?g \<noteq> ?w" by simp
    from peel[OF pos[unfolded eq] this] obtain xs1 where
      x1: "xs = ?g # xs1" "?l # ?s # new' = xs1 @ ?w # ys" by blast
    have "?l \<noteq> ?w" using contention(2) by simp
    from peel[OF x1(2) this] obtain xs2 where
      x2: "xs1 = ?l # xs2" "?s # new' = xs2 @ ?w # ys" by blast
    have "?s \<noteq> ?w" by simp
    from peel[OF x2(2) this] obtain xs3 where
      x3: "xs2 = ?s # xs3" "new' = xs3 @ ?w # ys" by blast
    have b: "BootstrapOnce E ((tr @ [?g, ?l, ?s]) @ xs3 @ [?w]) = ((a, err), h)"
      using boot x1(1) x2(1) x3(1) by simp
    from Suc.IH[OF N x3(2) b] eq show ?thesis by simp
  next
    case (primary_fails e' a' evs)
    let ?rest = "evs @ [EvDelete assetLockKey (Delete_res E (tr @ [?g, ?l] @ evs) assetLockKey)]"
    from run primary_fails(5) have eq: "new = ?g # ?l # ?rest" and r: "res = LoopReturn e'" by auto
    have "?w \<notin> set ?rest" using store_notin2[OF primary_fails(4), of ?w] by simp
    from first[OF eq this] have x: "xs = [?g]" "?l = ?w" by simp_all
    from boot x primary_fails(3) have "a = a'" "err = Some e'" "h = tr @ [?g, ?l] @ evs" by simp_all
    with eq r show ?thesis by simp
  next
    case (publish_fails e' a' evs)
    let ?rest = "evs @ [EvPutTx assetKey a' (Some e')] @ [EvDelete assetLockKey
                 (Delete_res E (tr @ [?g, ?l] @ evs @ [EvPutTx assetKey a' (Some e')]) assetLockKey)]"
    from run publish_fails(6) have eq: "new = ?g # ?l # ?rest" and r: "res = LoopReturn e'" by auto
    have "?w \<notin> set ?rest" using store_notin2[OF publish_fails(4), of ?w] by simp
    from first[OF eq this] have x: "xs = [?g]" "?l = ?w" by simp_all
    from boot x publish_fails(3) have "a = a'" "err = None" "h = tr @ [?g, ?l] @ evs" by simp_all
    with eq r publish_fails(5) show ?thesis by simp
  next
    case (published a' evs)
    let ?rest = "evs @ [EvPutTx assetKey a' None]"
    from run published(6) have eq: "new = ?g # ?l # ?rest" by auto
    have "?w \<notin> set ?rest" using store_notin2[OF published(4), of ?w] by simp
    from first[OF eq this] have x: "xs = [?g]" "?l = ?w" by simp_all
    from boot x published(3) have "a = a'" "err = None" "h = tr @ [?g, ?l] @ evs" by simp_all
    with published(5) show ?thesis by simp
  next
    case (secondary_fails e' a' evs)
    from run secondary_fails(4) have eq: "new = ?g # evs" by auto
    have "?w \<notin> set new" unfolding eq using store_notin[OF secondary_fails(3), of ?w] by simp
    from absent[OF pos this] show ?thesis .
  next
    case (secondary_done a' evs)
    from run secondary_done(4) have eq: "new = ?g # evs" by auto
    have "?w \<notin> set new" unfolding eq using store_notin[OF secondary_done(3), of ?w] by simp
    from absent[OF pos this] show ?thesis .
  qed
qed

text \<open>
  C1.  Take any run of \<open>CreateOrGetSharedAssets\<close> in which the lock is acquired, and let
  \<open>BootstrapOnce\<close>, entered at that point, return \<open>(a, err)\<close> at history \<open>h\<close>.  If
  \<open>err\<close> is an error \<open>e\<close>, the run returns \<open>e\<close> to the caller and its history is \<open>h\<close>
  followed by exactly one more call, the delete of the lock key.  If \<open>err\<close> is nil and
  the publication \<open>PutTx(assetKey, a)\<close> fails with \<open>e\<close>, the run returns \<open>e\<close> and its
  history is \<open>h\<close>, the failed \<open>PutTx\<close>, and the delete of the lock key.  In both cases
  no \<open>PutTx\<close> of the run succeeded, the asset key is not deleted, and the value
  returned is the triggering error whatever the delete of the lock key answers (what
  it answers appears in the history only).
\<close>

theorem failing_primary_returns_its_error_and_releases_lock:
  assumes run: "CreateOrGetSharedAssets fuel E k tr = (out, tr @ new)"
      and won: "new = xs @ EvGetOrCreateLock assetLockKey defaultLockTTL (Inr True) # ys"
      and boot: "BootstrapOnce E (tr @ xs @ [EvGetOrCreateLock assetLockKey defaultLockTTL (Inr True)])
                   = ((a, err), h)"
  shows "(\<forall>e. err = Some e \<longrightarrow>
            out = Returns (Some e)
            \<and> tr @ new = h @ [EvDelete assetLockKey (Delete_res E h assetLockKey)]
            \<and> (\<forall>key v. EvPutTx key v None \<notin> set new)
            \<and> (\<forall>r. EvDelete assetKey r \<notin> set new))
       \<and> (\<forall>e. err = None \<and> PutTx_res E h assetKey a = Some e \<longrightarrow>
            out = Returns (Some e)
            \<and> tr @ new = h @ [EvPutTx assetKey a (Some e),
                 EvDelete assetLockKey
                   (Delete_res E (h @ [EvPutTx assetKey a (Some e)]) assetLockKey)]
            \<and> (\<forall>key v. EvPutTx key v None \<notin> set new)
            \<and> (\<forall>r. EvDelete assetKey r \<notin> set new))"
proof -
  let ?p = "[EvUpdateCloudCfg None, EvCopyKubeCa None, EvWriteManifests None]"
  let ?w = "EvGetOrCreateLock assetLockKey defaultLockTTL (Inr True)"
  have inrun: "?w \<in> set new" using won by simp
  have main: "(\<forall>e. err = Some e \<longrightarrow>
            res = LoopReturn e
            \<and> tr @ new = h @ [EvDelete assetLockKey (Delete_res E h assetLockKey)] \<and> post = [])
       \<and> (\<forall>e. err = None \<and> PutTx_res E h assetKey a = Some e \<longrightarrow>
            res = LoopReturn e
            \<and> tr @ new = h @ [EvPutTx assetKey a (Some e),
                 EvDelete assetLockKey
                   (Delete_res E (h @ [EvPutTx assetKey a (Some e)]) assetLockKey)] \<and> post = [])"
    if L: "electionLoop fuel E k (tr @ ?p) = (res, (tr @ ?p) @ lnew)"
      and eq: "new = ?p @ lnew @ post" and sp: "set post \<subseteq> {EvSpin}"
      and fin: "res \<noteq> LoopBreak \<longrightarrow> post = []"
    for res lnew post
  proof -
    have n1: "?w \<notin> set ?p" by simp
    from split_skip[OF won[unfolded eq] n1] obtain xs' where
      x: "xs = ?p @ xs'" "lnew @ post = xs' @ ?w # ys" by blast
    have "?w \<notin> set post" using sp by auto
    from split_skip_right[OF x(2) this] obtain ys' where y: "lnew = xs' @ ?w # ys'" "ys = ys' @ post"
      by blast
    have b: "BootstrapOnce E ((tr @ ?p) @ xs' @ [?w]) = ((a, err), h)" using boot x(1) by simp
    from electionLoop_after_lock_won[OF L y(1) b] fin eq show ?thesis by auto
  qed
  have sum: "(\<forall>e. err = Some e \<longrightarrow>
            out = Returns (Some e)
            \<and> tr @ new = h @ [EvDelete assetLockKey (Delete_res E h assetLockKey)])
       \<and> (\<forall>e. err = None \<and> PutTx_res E h assetKey a = Some e \<longrightarrow>
            out = Returns (Some e)
            \<and> tr @ new = h @ [EvPutTx assetKey a (Some e),
                 EvDelete assetLockKey
                   (Delete_res E (h @ [EvPutTx assetKey a (Some e)]) assetLockKey)])"
  proof (cases rule: CreateOrGetSharedAssets_cases[where E=E and k=k and tr=tr and fuel=fuel])
    case (preamble_fails e evs)
    with run have eq: "new = evs" by auto
    have "?w \<notin> set new" unfolding eq using store_notin2[OF preamble_fails(2), of ?w] by simp
    from absent[OF won this] show ?thesis .
  next
    case (loop_returns e lnew)
    with run have n: "new = ?p @ lnew @ []" and o: "out = Returns (Some e)" by auto
    from main[OF loop_returns(1) n] o show ?thesis by auto
  next
    case (loop_starved lnew)
    with run have n: "new = ?p @ lnew @ []" by auto
    from main[OF loop_starved(1) n] show ?thesis by auto
  next
    case (done_exit lnew)
    with run have n: "new = ?p @ lnew @ []" by auto
    from main[OF done_exit(1) n] show ?thesis by auto
  next
    case (done_spin lnew)
    with run have n: "new = ?p @ lnew @ replicate fuel EvSpin" by auto
    have "set (replicate fuel EvSpin) \<subseteq> {EvSpin}" by auto
    from main[OF done_spin(1) n this] show ?thesis by auto
  qed
  have shape: "(\<forall>key v. EvPutTx key v None \<notin> set new) \<and> (\<forall>r. EvDelete assetKey r \<notin> set new)"
    if "out = Returns (Some e)" for e
    using failed_run_after_lock_shape[OF run[unfolded that] inrun] by blast
  from sum shape show ?thesis by blast
qed

lemma put_fails_run:
  "CreateOrGetSharedAssets (Suc 0) envPutFails cfg0 [] =
     (Returns (Some (Err ''etcd: key exists'')),
      [] @ primaryEvents @ [EvPutTx assetKey (json_Marshal bundle0) (Some (Err ''etcd: key exists'')),
                            EvDelete assetLockKey (Some (Err ''etcd: delete failed''))])"
  by (simp add: run_defs envPutFails_def env0_def cfg0_def primaryEvents_def bundle0_def)

lemma put_fails_boot:
  "BootstrapOnce envPutFails
     ([] @ [EvUpdateCloudCfg None, EvCopyKubeCa None, EvWriteManifests None,
            EvGet assetKey (Inl ErrKeyMissing)]
         @ [EvGetOrCreateLock assetLockKey defaultLockTTL (Inr True)])
   = ((json_Marshal bundle0, None), primaryEvents)"
  by (simp add: run_defs envPutFails_def env0_def primaryEvents_def bundle0_def)

lemma tokens_fail_boot:
  "BootstrapOnce envTokensFail
     ([] @ [EvUpdateCloudCfg None, EvCopyKubeCa None, EvWriteManifests None,
            EvGet assetKey (Inl ErrKeyMissing)]
         @ [EvGetOrCreateLock assetLockKey defaultLockTTL (Inr True)])
   = (([], Some (Err ''tokens: deploy failed'')), butlast tokensFailEvents)"
  by (simp add: run_defs envTokensFail_def env0_def tokensFailEvents_def)

theorem failing_primary_returns_its_error_and_releases_lock_witness:
  "CreateOrGetSharedAssets (Suc 0) envTokensFail cfg0 [] =
     (Returns (Some (Err ''tokens: deploy failed'')), [] @ tokensFailEvents)
   \<and> [] @ tokensFailEvents =
       butlast tokensFailEvents @ [EvDelete assetLockKey (Some (Err ''etcd: delete failed''))]
   \<and> (\<forall>key v. EvPutTx key v None \<notin> set tokensFailEvents)
   \<and> (\<forall>r. EvDelete assetKey r \<notin> set tokensFailEvents)
   \<and> PutTx_res envPutFails primaryEvents assetKey (json_Marshal bundle0)
       = Some (Err ''etcd: key exists'')
   \<and> CreateOrGetSharedAssets (Suc 0) envPutFails cfg0 [] =
       (Returns (Some (Err ''etcd: key exists'')),
        primaryEvents @ [EvPutTx assetKey (json_Marshal bundle0) (Some (Err ''etcd: key exists'')),
                         EvDelete assetLockKey (Some (Err ''etcd: delete failed''))])
   \<and> (\<forall>key v. EvPutTx key v None \<notin>
         set (primaryEvents
              @ [EvPutTx assetKey (json_Marshal bundle0) (Some (Err ''etcd: key exists'')),
                 EvDelete assetLockKey (Some (Err ''etcd: delete failed''))]))"
proof -
  let ?xs = "[EvUpdateCloudCfg None, EvCopyKubeCa None, EvWriteManifests None,
              EvGet assetKey (Inl ErrKeyMissing)]"
  have d1: "tokensFailEvents = ?xs @ EvGetOrCreateLock assetLockKey defaultLockTTL (Inr True)
              # drop 5 tokensFailEvents"
    by (simp add: tokensFailEvents_def)
  have dl: "Delete_res envTokensFail (butlast tokensFailEvents) assetLockKey
              = Some (Err ''etcd: delete failed'')"
    by (simp add: envTokensFail_def)
  from failing_primary_returns_its_error_and_releases_lock[OF tokens_fail_run d1 tokens_fail_boot]
  have t: "[] @ tokensFailEvents =
       butlast tokensFailEvents @ [EvDelete assetLockKey (Some (Err ''etcd: delete failed''))]
   \<and> (\<forall>key v. EvPutTx key v None \<notin> set tokensFailEvents)
   \<and> (\<forall>r. EvDelete assetKey r \<notin> set tokensFailEvents)"
    unfolding dl by blast
  have p: "PutTx_res envPutFails primaryEvents assetKey (json_Marshal bundle0)
       = Some (Err ''etcd: key exists'')"
    by (simp add: envPutFails_def)
  let ?new = "primaryEvents @ [EvPutTx assetKey (json_Marshal bundle0) (Some (Err ''etcd: key exists'')),
                            EvDelete assetLockKey (Some (Err ''etcd: delete failed''))]"
  have d2: "?new = ?xs @ EvGetOrCreateLock assetLockKey defaultLockTTL (Inr True) # drop 5 ?new"
    by (simp add: primaryEvents_def)
  from failing_primary_returns_its_error_and_releases_lock[OF put_fails_run d2 put_fails_boot] p
  have q: "\<forall>key v. EvPutTx key v None \<notin> set ?new"
    by blast
  from t p q tokens_fail_run put_fails_run show ?thesis by simp
qed

section \<open>Extra arguments: what each item contributes\<close>

text \<open>
  The description that \<open>stringToMap\<close> is compared with does not use the model of
  \<open>strings.Split\<close> or \<open>strings.FieldsFunc\<close>.  It rests on \<open>cut\<close>, which cuts a string at
  every separator and keeps empty pieces; the first lemmas pin \<open>cut\<close> down: there is one
  piece more than there are separators, no piece holds a separator, and the pieces
  with the separators put back between them are the string.
\<close>

lemma cut_nonempty: "cut f s \<noteq> []"
  by (induction s) (auto split: list.splits)

lemma cut_length: "length (cut f s) = Suc (length (filter f s))"
  by (induction s) (auto split: list.splits)

lemma cut_weave: "weave (cut f s) (filter f s) = s"
proof (induction s)
  case Nil
  show ?case by simp
next
  case (Cons c cs)
  obtain p ps where P: "cut f cs = p # ps" using cut_nonempty[of f cs] by (cases "cut f cs") auto
  show ?case
  proof (cases "f c")
    case True
    with Cons show ?thesis by simp
  next
    case False
    from Cons P have "weave (p # ps) (filter f cs) = cs" by simp
    then have "weave ((c # p) # ps) (filter f cs) = c # cs"
      by (cases "filter f cs") auto
    with False P show ?thesis by simp
  qed
qed

lemma cut_pieces: "p \<in> set (cut f s) \<Longrightarrow> ch \<in> set p \<Longrightarrow> \<not> f ch"
proof (induction s arbitrary: p)
  case Nil
  then show ?case by simp
next
  case (Cons c cs)
  obtain q qs where Q: "cut f cs = q # qs" using cut_nonempty[of f cs] by (cases "cut f cs") auto
  show ?case
  proof (cases "f c")
    case True
    with Cons.prems have "p = [] \<or> p \<in> set (cut f cs)" by simp
    with Cons.IH Cons.prems(2) show ?thesis by auto
  next
    case False
    with Cons.prems(1) Q have "p = c # q \<or> p \<in> set qs" by simp
    then show ?thesis
    proof
      assume "p = c # q"
      with Cons.prems(2) have "ch = c \<or> ch \<in> set q" by simp
      with False Cons.IH[of q] Q show ?thesis by auto
    next
      assume "p \<in> set qs"
      with Q have "p \<in> set (cut f cs)" by simp
      from Cons.IH[OF this Cons.prems(2)] show ?thesis .
    qed
  qed
qed

lemma splitAux_cut:
  "splitAux c cur s = (rev cur @ hd (cut (\<lambda>x. x = c) s)) # tl (cut (\<lambda>x. x = c) s)"
proof (induction s arbitrary: cur)
  case Nil
  show ?case by simp
next
  case (Cons a s)
  obtain p ps where P: "cut (\<lambda>x. x = c) s = p # ps"
    using cut_nonempty[of "\<lambda>x. x = c" s] by (cases "cut (\<lambda>x. x = c) s") auto
  show ?case
  proof (cases "a = c")
    case True
    then show ?thesis using Cons.IH[of "[]"] P by simp
  next
    case False
    then show ?thesis using Cons.IH[of "a # cur"] P by simp
  qed
qed

lemma Split_cut: "Split s c = cut (\<lambda>x. x = c) s"
proof -
  obtain p ps where P: "cut (\<lambda>x. x = c) s = p # ps"
    using cut_nonempty[of "\<lambda>x. x = c" s] by (cases "cut (\<lambda>x. x = c) s") auto
  then show ?thesis by (simp add: Split_def splitAux_cut)
qed

lemma fieldsAux_cut:
  "(case st of None \<Rightarrow> True | Some cur \<Rightarrow> cur \<noteq> []) \<Longrightarrow>
   fieldsAux f st s =
     filter (\<lambda>p. p \<noteq> [])
       (((case st of None \<Rightarrow> [] | Some cur \<Rightarrow> rev cur) @ hd (cut f s)) # tl (cut f s))"
proof (induction s arbitrary: st)
  case Nil
  then show ?case by (cases st) auto
next
  case (Cons c cs)
  obtain p ps where P: "cut f cs = p # ps" using cut_nonempty[of f cs] by (cases "cut f cs") auto
  show ?case
  proof (cases st)
    case None
    show ?thesis
    proof (cases "f c")
      case True
      with None P Cons.IH[of None] show ?thesis by simp
    next
      case False
      with None P Cons.IH[of "Some [c]"] show ?thesis by simp
    qed
  next
    case (Some cur)
    with Cons.prems have ne: "cur \<noteq> []" by simp
    show ?thesis
    proof (cases "f c")
      case True
      with Some P ne Cons.IH[of None] show ?thesis by simp
    next
      case False
      with Some P ne Cons.IH[of "Some (c # cur)"] show ?thesis by simp
    qed
  qed
qed

lemma FieldsFunc_fields: "FieldsFunc item stringToMap_f = fields item"
proof -
  have e: "stringToMap_f = (\<lambda>c. c = CHR ''='' \<or> c = CHR '' '')"
    by (rule ext) (simp add: stringToMap_f_def)
  obtain p ps where P: "cut stringToMap_f item = p # ps"
    using cut_nonempty[of stringToMap_f item] by (cases "cut stringToMap_f item") auto
  have "FieldsFunc item stringToMap_f = filter (\<lambda>p. p \<noteq> []) (cut stringToMap_f item)"
    using fieldsAux_cut[of None stringToMap_f item] P by (simp add: FieldsFunc_def)
  then show ?thesis unfolding fields_def e .
qed

lemma stringToMap_body_contribution:
  "stringToMap_body m item =
     (case contribution (FieldsFunc item stringToMap_f) of
        None \<Rightarrow> m | Some (k, v) \<Rightarrow> m(k \<mapsto> v))"
proof (cases "FieldsFunc item stringToMap_f")
  case Nil
  then show ?thesis by (simp add: stringToMap_body_def contribution_def)
next
  case (Cons a as)
  note A = this
  show ?thesis
  proof (cases as)
    case Nil
    with A show ?thesis by (simp add: stringToMap_body_def contribution_def)
  next
    case (Cons b bs)
    with A show ?thesis by (cases bs) (simp_all add: stringToMap_body_def contribution_def)
  qed
qed

lemma foldl_stringToMap_body:
  "foldl stringToMap_body m items =
     m ++ map_of (rev (List.map_filter (\<lambda>item. contribution (fields item)) items))"
proof (induction items arbitrary: m)
  case Nil
  then show ?case by (simp add: List.map_filter_simps)
next
  case (Cons x xs)
  let ?mf = "List.map_filter (\<lambda>item. contribution (fields item))"
  have step: "foldl stringToMap_body m (x # xs) = stringToMap_body m x ++ map_of (rev (?mf xs))"
    using Cons.IH[of "stringToMap_body m x"] by simp
  note b = stringToMap_body_contribution[of m x, unfolded FieldsFunc_fields]
  show ?case
  proof (cases "contribution (fields x)")
    case None
    with b have "stringToMap_body m x = m" by simp
    moreover from None have "?mf (x # xs) = ?mf xs" by (simp add: List.map_filter_simps)
    ultimately show ?thesis using step by simp
  next
    case (Some kv)
    obtain k v where kv: "kv = (k, v)" by (cases kv)
    with b Some have u: "stringToMap_body m x = m(k \<mapsto> v)" by simp
    from Some kv have "?mf (x # xs) = (k, v) # ?mf xs" by (simp add: List.map_filter_simps)
    then have r: "map_of (rev (?mf (x # xs))) = [k \<mapsto> v] ++ map_of (rev (?mf xs))" by simp
    have "m(k \<mapsto> v) ++ M = m ++ ([k \<mapsto> v] ++ M)" for M :: "string \<rightharpoonup> string"
      by (rule ext) (simp add: map_add_def split: option.splits)
    then show ?thesis unfolding step u r .
  qed
qed

text \<open>
  C10.  For every input string, \<open>stringToMap\<close> is the dictionary described as follows.
  The string is cut at every comma into items (empty items kept).  Each item is cut at
  every \<open>=\<close> and every space, and its fields are the non-empty pieces, in order.  An
  item with exactly two fields maps the first to the second; an item with exactly one
  field maps it to the empty string; an item with no field, or with three or more,
  contributes nothing.  A later item overrides an earlier one with the same key.
  Cutting is determined by the three properties stated with it: \<open>cut f s\<close> has one piece
  more than \<open>s\<close> has separators, the pieces interleaved with the separators of \<open>s\<close> give
  \<open>s\<close> back, and no piece contains a separator.
\<close>

theorem stringToMap_is_map_of_field_counts:
  "stringToMap args = stringToMap_spec args
   \<and> length (cut f s) = Suc (length (filter f s))
   \<and> weave (cut f s) (filter f s) = s
   \<and> (\<forall>p\<in>set (cut f s). \<forall>ch\<in>set p. \<not> f ch)"
proof (intro conjI)
  show "stringToMap args = stringToMap_spec args"
    by (simp add: stringToMap_def stringToMap_spec_def foldl_stringToMap_body Split_cut)
  show "length (cut f s) = Suc (length (filter f s))" by (rule cut_length)
  show "weave (cut f s) (filter f s) = s" by (rule cut_weave)
  show "\<forall>p\<in>set (cut f s). \<forall>ch\<in>set p. \<not> f ch" using cut_pieces by blast
qed

lemma example_items:
  "cut (\<lambda>c. c = CHR '','') ''key=value,b,,c d e, =x= ,key=2,k v''
     = [''key=value'', ''b'', [], ''c d e'', '' =x= '', ''key=2'', ''k v'']"
  by simp

lemma example_fields:
  "map fields [''key=value'', ''b'', [], ''c d e'', '' =x= '', ''key=2'', ''k v'']
     = [[''key'', ''value''], [''b''], [], [''c'', ''d'', ''e''], [''x''], [''key'', ''2''],
        [''k'', ''v'']]"
  by (simp add: fields_def)

theorem stringToMap_is_map_of_field_counts_witness:
  "stringToMap ''key=value,b,,c d e, =x= ,key=2,k v'' =
     map_of [(''k'', ''v''), (''key'', ''2''), (''x'', []), (''b'', []), (''key'', ''value'')]
   \<and> stringToMap ''key=value'' = [''key'' \<mapsto> ''value'']
   \<and> ''c d e'' \<in> set (cut (\<lambda>c. c = CHR '','') ''key=value,b,,c d e, =x= ,key=2,k v'')
   \<and> CHR ''d'' \<in> set ''c d e'' \<and> CHR ''d'' \<noteq> CHR '',''"
proof -
  have a: "stringToMap ''key=value,b,,c d e, =x= ,key=2,k v'' =
     map_of [(''k'', ''v''), (''key'', ''2''), (''x'', []), (''b'', []), (''key'', ''value'')]"
    using stringToMap_is_map_of_field_counts[of "''key=value,b,,c d e, =x= ,key=2,k v''"]
          example_items example_fields
    by (simp add: stringToMap_spec_def contribution_def List.map_filter_simps)
  have b: "stringToMap ''key=value'' = [''key'' \<mapsto> ''value'']"
    using stringToMap_is_map_of_field_counts[of "''key=value''"]
    by (simp add: stringToMap_spec_def contribution_def List.map_filter_simps fields_def)
  have c: "''c d e'' \<in> set (cut (\<lambda>c. c = CHR '','') ''key=value,b,,c d e, =x= ,key=2,k v'')"
    using example_items by simp
  from stringToMap_is_map_of_field_counts[of _ "\<lambda>c. c = CHR '',''"
          "''key=value,b,,c d e, =x= ,key=2,k v''"] c
  have "\<forall>ch\<in>set ''c d e''. ch \<noteq> CHR '',''" by blast
  then have d: "CHR ''d'' \<in> set ''c d e'' \<and> CHR ''d'' \<noteq> CHR '',''" by simp
  from a b c d show ?thesis by blast
qed

end
